theory Spec2Isabelle
  imports Complex_Main "HOL-Library.AList"
begin

section \<open>Numbers and vectors\<close>

text \<open>
  The engine computes with C++ \<^verbatim>\<open>float\<close> and \<^verbatim>\<open>glm::vec2\<close>. A \<^verbatim>\<open>float\<close> is modelled by
  the real number it denotes. Coordinates, scales, velocities and the accumulator of a
  timed action are computed exactly: comparisons are the program's comparisons, sums and
  products are the ideal ones. The time a sprite animation accumulates and the variables
  of the frame loop are computed in single precision, every operation followed by the
  rounding \<open>f32\<close> of the next section. Counters of type \<^verbatim>\<open>size_t\<close> are natural numbers,
  reduced modulo \<open>2 ^ 64\<close> where the program increments them without a bound; the \<^verbatim>\<open>int\<close>
  of the health component is an integer, and decrementing the least \<^verbatim>\<open>int\<close> is an error.
\<close>

datatype vec2 = Vec2 (vx: real) (vy: real)

definition vec2_add :: "vec2 \<Rightarrow> vec2 \<Rightarrow> vec2" where
  "vec2_add a b = Vec2 (vx a + vx b) (vy a + vy b)"

definition vec2_scale :: "vec2 \<Rightarrow> real \<Rightarrow> vec2" where
  "vec2_scale a k = Vec2 (vx a * k) (vy a * k)"

definition vec2_min :: "vec2 \<Rightarrow> vec2 \<Rightarrow> vec2" where
  "vec2_min a b = Vec2 (min (vx a) (vx b)) (min (vy a) (vy b))"

definition vec2_max :: "vec2 \<Rightarrow> vec2 \<Rightarrow> vec2" where
  "vec2_max a b = Vec2 (max (vx a) (vx b)) (max (vy a) (vy b))"

section \<open>Single precision (IEEE 754 binary32)\<close>

text \<open>
  The finite binary32 numbers are the numbers \<open>k * 2 ^ e * tiny\<close> with an integer \<open>k\<close>,
  \<open>\<bar>k\<bar> < 2 ^ 24\<close>, a natural number \<open>e \<le> 104\<close> and \<open>tiny = 2 ^ -149\<close>, the least positive
  one. An operation on \<^verbatim>\<open>float\<close>s is the exact operation followed by \<open>f32\<close>, the rounding
  to the nearest such number, ties to the even \<open>k\<close> (the default rounding mode; every
  operation is rounded once, to single precision, as SSE and AArch64 code does). The
  conversion of a \<^verbatim>\<open>double\<close> or an \<^verbatim>\<open>int\<close> to \<^verbatim>\<open>float\<close> is \<open>f32\<close> as well.

  \<open>bits n\<close> is the number of binary digits of \<open>n\<close>; \<open>ulp x\<close> is the distance of the binary32
  numbers around \<open>x\<close>, that is \<open>tiny\<close> up to \<open>2 ^ 24 * tiny\<close> and doubled from each power of
  two on; \<open>rne\<close> rounds to the nearest integer, ties to even. The exponent is not bounded
  above: from \<open>2 ^ 128\<close> on, where the program has infinities, \<open>f32\<close> goes on with the
  same precision, and \<open>float32 x\<close> says that \<open>x\<close> is a binary32 number below that bound.
\<close>

fun bits :: "nat \<Rightarrow> nat" where
  "bits n = (if n = 0 then 0 else bits (n div 2) + 1)"

declare bits.simps [simp del]

definition tiny :: real where
  "tiny = 1 / 2 ^ 149"

definition expo :: "real \<Rightarrow> nat" where
  "expo x = bits (nat \<lfloor>\<bar>x\<bar> / tiny\<rfloor>) - 24"

definition ulp :: "real \<Rightarrow> real" where
  "ulp x = 2 ^ expo x * tiny"

definition rne :: "real \<Rightarrow> int" where
  "rne y =
     (let f = \<lfloor>y\<rfloor>; d = y - of_int f
      in if d < 1/2 then f else if d > 1/2 then f + 1 else if even f then f else f + 1)"

definition f32 :: "real \<Rightarrow> real" where
  "f32 x = of_int (rne (x / ulp x)) * ulp x"

definition float32 :: "real \<Rightarrow> bool" where
  "float32 x \<longleftrightarrow> f32 x = x \<and> \<bar>x\<bar> < 2 ^ 128"

section \<open>Transform and bounding boxes (components.hpp, core/aabb.hpp)\<close>

record Transform =
  position :: vec2
  scale :: vec2
  rotation :: real

text \<open>
  \<^verbatim>\<open>Transform::matrix()\<close> is translate * rotate * scale, the rotation about the z axis by
  the angle given in degrees. \<^verbatim>\<open>Aabb::transform\<close> multiplies it
  with \<^verbatim>\<open>vec4(p, 0, 1)\<close> and keeps the first two coordinates, so only the upper-left 2x2
  block and the translation column take part; \<open>mat\<close> holds exactly these entries.
\<close>

record mat =
  m00 :: real
  m01 :: real
  m10 :: real
  m11 :: real
  m03 :: real
  m13 :: real

definition radians :: "real \<Rightarrow> real" where
  "radians d = d * pi / 180"

definition matrix :: "Transform \<Rightarrow> mat" where
  "matrix t =
     (let c = cos (radians (rotation t)); s = sin (radians (rotation t)) in
      \<lparr> m00 = c * vx (scale t), m01 = - s * vy (scale t),
        m10 = s * vx (scale t), m11 = c * vy (scale t),
        m03 = vx (position t), m13 = vy (position t) \<rparr>)"

definition mat_apply :: "mat \<Rightarrow> vec2 \<Rightarrow> vec2" where
  "mat_apply m p =
     Vec2 (m00 m * vx p + m01 m * vy p + m03 m) (m10 m * vx p + m11 m * vy p + m13 m)"

record Aabb =
  aabb_min :: vec2
  aabb_max :: vec2

definition transform_aabb :: "Aabb \<Rightarrow> mat \<Rightarrow> Aabb" where
  "transform_aabb bb m =
     (let a = mat_apply m (aabb_min bb); b = mat_apply m (aabb_max bb) in
      \<lparr> aabb_min = vec2_min a b, aabb_max = vec2_max a b \<rparr>)"

definition collision :: "Aabb \<Rightarrow> Aabb \<Rightarrow> bool" where
  "collision a b \<longleftrightarrow>
     vx (aabb_min a) < vx (aabb_max b) \<and>
     vx (aabb_max a) > vx (aabb_min b) \<and>
     vy (aabb_min a) < vy (aabb_max b) \<and>
     vy (aabb_max a) > vy (aabb_min b)"

text \<open>A point lies strictly inside a box (used to state what an overlap means).\<close>

definition strictly_inside :: "Aabb \<Rightarrow> vec2 \<Rightarrow> bool" where
  "strictly_inside bb p \<longleftrightarrow>
     vx (aabb_min bb) < vx p \<and> vx p < vx (aabb_max bb) \<and>
     vy (aabb_min bb) < vy p \<and> vy p < vy (aabb_max bb)"

section \<open>Undefined behaviour and aborts as error values\<close>

text \<open>
  The C++ code never returns an error, but it can leave defined behaviour: reading a
  vector beyond its size (or \<^verbatim>\<open>front()\<close>, or stepping an iterator past \<^verbatim>\<open>begin()\<close>, of an
  empty vector), dereferencing an empty \<^verbatim>\<open>std::optional\<close>, decrementing \<^verbatim>\<open>INT_MIN\<close>, calling
  an empty \<^verbatim>\<open>std::function\<close>, or running into \<^verbatim>\<open>ASSERT\<close> / \<^verbatim>\<open>ASSERT_GET\<close>, which abort the
  process. Each of these is a branch of the model that returns \<open>Inl\<close>.
\<close>

datatype error =
  IndexOutOfRange | EmptyOptional | AssertFailed | BadFunctionCall | SignedOverflow

definition err_bind :: "error + 'a \<Rightarrow> ('a \<Rightarrow> error + 'b) \<Rightarrow> error + 'b" where
  "err_bind m f = (case m of Inl e \<Rightarrow> Inl e | Inr x \<Rightarrow> f x)"

fun for_each :: "('i \<Rightarrow> 's \<Rightarrow> error + 's) \<Rightarrow> 'i list \<Rightarrow> 's \<Rightarrow> error + 's" where
  "for_each f [] s = Inr s"
| "for_each f (x # xs) s = err_bind (f x s) (for_each f xs)"

section \<open>Sprite animation (core/sprite.hpp)\<close>

record SpriteFrame =
  duration :: real
  ebo_offset :: nat
  ebo_count :: nat

record SpriteAnimation =
  last_transit_dt :: real
  curr_frame_idx :: nat
  frames :: "SpriteFrame list"
  curr_cycle_count :: nat
  max_cycles :: nat

text \<open>
  \<^verbatim>\<open>update_frame\<close>: one \<^verbatim>\<open>if\<close>, hence at most one frame transition per call. The sum
  \<^verbatim>\<open>last_transit_dt += dt\<close> and the difference \<^verbatim>\<open>last_transit_dt -= curr_frame.duration\<close>
  are rounded to single precision. The cycle counter is a \<^verbatim>\<open>size_t\<close> and wraps at
  \<open>2 ^ 64\<close>.
\<close>

definition update_frame :: "SpriteAnimation \<Rightarrow> real \<Rightarrow> error + SpriteAnimation" where
  "update_frame a dt =
     (if curr_frame_idx a \<ge> length (frames a) then Inl IndexOutOfRange
      else
        let t = f32 (last_transit_dt a + dt);
            curr_frame = frames a ! curr_frame_idx a
        in if t \<ge> duration curr_frame then
             (if curr_frame_idx a + 1 = length (frames a)
              then Inr (a\<lparr>last_transit_dt := f32 (t - duration curr_frame), curr_frame_idx := 0,
                          curr_cycle_count := (curr_cycle_count a + 1) mod 2 ^ 64\<rparr>)
              else Inr (a\<lparr>last_transit_dt := f32 (t - duration curr_frame),
                          curr_frame_idx := curr_frame_idx a + 1\<rparr>))
           else Inr (a\<lparr>last_transit_dt := t\<rparr>))"

definition expired :: "SpriteAnimation \<Rightarrow> bool" where
  "expired a \<longleftrightarrow> max_cycles a > 0 \<and> curr_cycle_count a \<ge> max_cycles a"

text \<open>Calling \<^verbatim>\<open>update_frame\<close> once for each step of a list of time steps, in order.\<close>

fun update_frames :: "SpriteAnimation \<Rightarrow> real list \<Rightarrow> error + SpriteAnimation" where
  "update_frames a [] = Inr a"
| "update_frames a (dt # dts) = err_bind (update_frame a dt) (\<lambda>a'. update_frames a' dts)"

text \<open>The frame that follows the current one (index 0 after the last frame).\<close>

definition next_frame_idx :: "SpriteAnimation \<Rightarrow> nat" where
  "next_frame_idx a =
     (if curr_frame_idx a + 1 = length (frames a) then 0 else curr_frame_idx a + 1)"

text \<open>
  A run of \<^verbatim>\<open>update_frame\<close> over a list of steps in which no operation is rounded: each
  sum of accumulator and step, and each difference of that sum and the duration of the
  current frame that the call computes, is a binary32 number.
\<close>

fun unrounded :: "SpriteAnimation \<Rightarrow> real list \<Rightarrow> bool" where
  "unrounded a [] = True"
| "unrounded a (dt # dts) =
     (let t = last_transit_dt a + dt; d = duration (frames a ! curr_frame_idx a)
      in float32 t \<and> (if t \<ge> d then float32 (t - d) else True) \<and>
         (case update_frame a dt of Inl e \<Rightarrow> True | Inr a' \<Rightarrow> unrounded a' dts))"

section \<open>Timed actions (components.hpp)\<close>

text \<open>
  The \<^verbatim>\<open>std::function\<close> of a timed action is one of two closures in the program: the
  default \<^verbatim>\<open>[](auto&&...){}\<close> and the one \<^verbatim>\<open>key_space_handler\<close> registers, which calls
  \<^verbatim>\<open>spawn_projectile\<close>.
\<close>

datatype action_fn = default_action | spawn_projectile_action

record TimedAction =
  tick_dt :: real
  ta_duration :: real
  action :: action_fn

text \<open>
  \<^verbatim>\<open>TimedAction::update(game, dt, time)\<close>. The argument \<open>run\<close> says what invoking an action
  does to the state handed to it.
\<close>

definition TimedAction_update ::
  "(action_fn \<Rightarrow> 'g \<Rightarrow> real \<Rightarrow> real \<Rightarrow> error + 'g) \<Rightarrow> TimedAction \<Rightarrow> 'g \<Rightarrow> real \<Rightarrow> real
     \<Rightarrow> error + (TimedAction \<times> 'g)" where
  "TimedAction_update run ta g dt time =
     (let t = tick_dt ta + dt in
      if t \<ge> ta_duration ta
      then err_bind (run (action ta) g dt time)
             (\<lambda>g'. Inr (ta\<lparr>tick_dt := t - ta_duration ta\<rparr>, g'))
      else Inr (ta\<lparr>tick_dt := t\<rparr>, g))"

text \<open>An observer that counts how often the action is invoked.\<close>

definition count_invocation :: "action_fn \<Rightarrow> nat \<Rightarrow> real \<Rightarrow> real \<Rightarrow> error + nat" where
  "count_invocation a n dt time = Inr (Suc n)"

section \<open>Resource caches (textures.hpp, audios.hpp, core/res_manager.hpp)\<close>

text \<open>
  A cache maps a path to a \<^verbatim>\<open>std::shared_ptr\<close>. The pointer is modelled as an address into
  a store of the objects \<^verbatim>\<open>std::make_shared\<close> has allocated (the address is the position in
  the store), so that two handles are the same handle exactly when the addresses are equal.
  The loader (\<^verbatim>\<open>load_rgba_texture\<close>, \<^verbatim>\<open>load_wav_audio\<close>) reads files and talks to the driver:
  it is a parameter that takes the path and the state of the outside world and returns the
  loaded resource, or nothing, and the new state of the world.
\<close>

record 'r Cache =
  cache_map :: "string \<Rightarrow> nat option"
  store :: "'r list"

text \<open>First generation: \<^verbatim>\<open>Textures::get_or_load\<close> and \<^verbatim>\<open>Audios::get_or_load\<close>.\<close>

definition get_or_load ::
  "(string \<Rightarrow> 'w \<Rightarrow> 'r option \<times> 'w) \<Rightarrow> 'r Cache \<Rightarrow> string \<Rightarrow> 'w
     \<Rightarrow> nat option \<times> 'r Cache \<times> 'w" where
  "get_or_load loader c path w =
     (case cache_map c path of
        Some ptr \<Rightarrow> (Some ptr, c, w)
      | None \<Rightarrow>
          (case loader path w of
             (None, w') \<Rightarrow> (None, c, w')
           | (Some res, w') \<Rightarrow>
               let ptr = length (store c) in
               (Some ptr, c\<lparr>store := store c @ [res], cache_map := (cache_map c)(path \<mapsto> ptr)\<rparr>, w')))"

text \<open>
  Second generation: \<^verbatim>\<open>ResManager::get\<close>, and \<^verbatim>\<open>Textures::load\<close> / \<^verbatim>\<open>Audios::load\<close>, which
  always run the loader and, when it succeeds, \<^verbatim>\<open>insert_or_assign\<close> the new handle.
\<close>

definition cache_get :: "'r Cache \<Rightarrow> string \<Rightarrow> nat option" where
  "cache_get c path = cache_map c path"

definition cache_load ::
  "(string \<Rightarrow> 'w \<Rightarrow> 'r option \<times> 'w) \<Rightarrow> 'r Cache \<Rightarrow> string \<Rightarrow> 'w
     \<Rightarrow> nat option \<times> 'r Cache \<times> 'w" where
  "cache_load loader c path w =
     (case loader path w of
        (None, w') \<Rightarrow> (None, c, w')
      | (Some res, w') \<Rightarrow>
          let ptr = length (store c) in
          (Some ptr, c\<lparr>store := store c @ [res], cache_map := (cache_map c)(path \<mapsto> ptr)\<rparr>, w'))"

text \<open>A loader together with a counter of its invocations.\<close>

definition counting ::
  "(string \<Rightarrow> 'w \<Rightarrow> 'r option \<times> 'w) \<Rightarrow> string \<Rightarrow> 'w \<times> nat \<Rightarrow> 'r option \<times> ('w \<times> nat)" where
  "counting loader path wn =
     (case loader path (fst wn) of (r, w') \<Rightarrow> (r, (w', Suc (snd wn))))"

text \<open>Two \<^verbatim>\<open>get_or_load\<close> calls in a row: both results, the final cache and the final world.\<close>

definition get_or_load_twice ::
  "(string \<Rightarrow> 'w \<Rightarrow> 'r option \<times> 'w) \<Rightarrow> 'r Cache \<Rightarrow> string \<Rightarrow> 'w
     \<Rightarrow> nat option \<times> nat option \<times> 'r Cache \<times> 'w" where
  "get_or_load_twice loader c path w =
     (case get_or_load loader c path w of
        (h1, c1, w1) \<Rightarrow>
          (case get_or_load loader c1 path w1 of (h2, c2, w2) \<Rightarrow> (h1, h2, c2, w2)))"

section \<open>Components and game objects (components.hpp, main.cpp)\<close>

record Motion =
  velocity :: vec2
  acceleration :: vec2

type_synonym vec4 = "real \<times> real \<times> real \<times> real"

record TextFormat =
  font :: nat
  color :: vec4
  outline_color :: vec4
  outline_thickness :: real

text \<open>\<^verbatim>\<open>DelayErasing\<close>: its flag \<^verbatim>\<open>sound\<close> (default \<^verbatim>\<open>true\<close>) is the field \<open>de_sound\<close>.\<close>

record DelayErasing =
  de_sound :: bool

text \<open>
  \<^verbatim>\<open>struct GameObject\<close>. A \<^verbatim>\<open>std::optional\<close> field is an \<open>option\<close>; the components
  \<^verbatim>\<open>OffScreenDestroy\<close> and \<^verbatim>\<open>ScreenBound\<close> are empty structs, so their optionals are
  booleans; \<^verbatim>\<open>Health\<close> wraps one \<^verbatim>\<open>int\<close>. The shared pointers \<^verbatim>\<open>glo\<close>, \<^verbatim>\<open>texture\<close> and
  \<^verbatim>\<open>sound\<close> are the names of the objects they point to, \<^verbatim>\<open>glo = nullptr\<close> is \<open>None\<close>.
  The closure of \<^verbatim>\<open>UpdateFn\<close> is a value of the type parameter \<open>'u\<close>.
\<close>

record 'u GameObject =
  tag :: string
  transform :: Transform
  prev_transform :: Transform
  motion :: Motion
  glo :: "nat option"
  texture :: "nat option"
  sprite_animation :: "SpriteAnimation option"
  text_fmt :: "TextFormat option"
  update :: "'u option"
  aabb :: "Aabb option"
  offscreen_destroy :: bool
  screen_bound :: bool
  sound :: "nat option"
  delay_erasing :: "DelayErasing option"
  health :: "int option"

text \<open>The member initialisers of \<^verbatim>\<open>Transform\<close>, and \<^verbatim>\<open>Transform{.position = glm::vec2(1000.0f)}\<close>.\<close>

definition default_transform :: Transform where
  "default_transform = \<lparr>position = Vec2 0 0, scale = Vec2 (1/2) (1/2), rotation = 0\<rparr>"

definition sentinel_transform :: Transform where
  "sentinel_transform = default_transform\<lparr>position := Vec2 1000 1000\<rparr>"

text \<open>A default-constructed \<^verbatim>\<open>GameObject\<close>.\<close>

definition default_object :: "'u GameObject" where
  "default_object =
     \<lparr>tag = ''?'', transform = default_transform, prev_transform = default_transform,
      motion = \<lparr>velocity = Vec2 0 0, acceleration = Vec2 0 0\<rparr>,
      glo = None, texture = None, sprite_animation = None, text_fmt = None, update = None,
      aabb = None, offscreen_destroy = False, screen_bound = False, sound = None,
      delay_erasing = None, health = None\<rparr>"

text \<open>The world-space box \<^verbatim>\<open>aabb->transform(transform.matrix())\<close> of an object with a box.\<close>

definition world_aabb :: "Aabb \<Rightarrow> Transform \<Rightarrow> Aabb" where
  "world_aabb bb t = transform_aabb bb (matrix t)"

section \<open>The game state (main.cpp)\<close>

text \<open>
  \<^verbatim>\<open>ObjectLists\<close> has one vector per layer; \<^verbatim>\<open>all_lists()\<close> returns pointers to them in the
  order of declaration. The vectors are a function of the layer.
\<close>

datatype layer = Background | Spaceship | Projectile | Explosion | Gui | Text

definition all_lists :: "layer list" where
  "all_lists = [Background, Spaceship, Projectile, Explosion, Gui, Text]"

datatype key_handler =
  key_left_right_handler | key_up_down_handler | key_space_handler
| key_f3_handler | key_f7_handler | key_f6_handler

text \<open>
  \<^verbatim>\<open>struct Game\<close>, as \<^verbatim>\<open>game_init\<close> leaves it: the optionals around scene, caches and key
  maps hold a value. The camera, shaders, fonts and the two debug texts, which only
  rendering reads, are left out. The unordered maps \<open>key_states\<close> and \<open>timed_actions\<close> are
  association lists in their order of iteration. Two fields stand for the libraries
  outside: \<open>playing\<close> lists the OpenAL sources whose state is \<^verbatim>\<open>AL_PLAYING\<close>, and
  \<open>next_name\<close> is the next object name OpenGL or OpenAL hands out.
\<close>

record 'u Game =
  paused :: bool
  vsync :: bool
  hover :: bool
  cursor :: vec2
  window_size :: "nat \<times> nat"
  viewport_offset :: "nat \<times> nat"
  viewport_size :: "nat \<times> nat"
  objects :: "layer \<Rightarrow> 'u GameObject list"
  audios :: "string \<Rightarrow> nat option"
  textures :: "string \<Rightarrow> nat option"
  key_handlers :: "int \<Rightarrow> key_handler option"
  key_states :: "(int \<times> bool) list"
  timed_actions :: "(int \<times> TimedAction) list"
  screen_aabb :: Aabb
  debug_info :: bool
  aabbs :: bool
  playing :: "nat list"
  next_name :: nat

text \<open>The constant \<^verbatim>\<open>kAspectRatio\<close> of the initial window, 1280 by 720.\<close>

definition kAspectRatio :: real where
  "kAspectRatio = 1280 / 720"

definition set_layer :: "layer \<Rightarrow> 'u GameObject list \<Rightarrow> 'u Game \<Rightarrow> 'u Game" where
  "set_layer l objs g = g\<lparr>objects := (objects g)(l := objs)\<rparr>"

text \<open>\<^verbatim>\<open>ALSource::play()\<close>.\<close>

definition play :: "nat \<Rightarrow> 'u Game \<Rightarrow> 'u Game" where
  "play src g = g\<lparr>playing := List.insert src (playing g)\<rparr>"

section \<open>Creating objects (main.cpp)\<close>

text \<open>The frames of the explosion sprite; the durations are the literals \<^verbatim>\<open>0.04f\<close> and \<^verbatim>\<open>0.06f\<close>.\<close>

definition explosion_frames :: "SpriteFrame list" where
  "explosion_frames =
     [\<lparr>duration = f32 (4/100), ebo_offset = 0, ebo_count = 6\<rparr>,
      \<lparr>duration = f32 (4/100), ebo_offset = 12, ebo_count = 6\<rparr>,
      \<lparr>duration = f32 (4/100), ebo_offset = 24, ebo_count = 6\<rparr>,
      \<lparr>duration = f32 (4/100), ebo_offset = 36, ebo_count = 6\<rparr>,
      \<lparr>duration = f32 (4/100), ebo_offset = 48, ebo_count = 6\<rparr>,
      \<lparr>duration = f32 (6/100), ebo_offset = 60, ebo_count = 6\<rparr>]"

text \<open>
  \<^verbatim>\<open>create_explosion\<close>. \<^verbatim>\<open>ASSERT_GET\<close> aborts when the cache has no entry. The new
  \<^verbatim>\<open>GLObject\<close> and the new \<^verbatim>\<open>ALSource\<close> take the next two names.
\<close>

definition create_explosion :: "'u Game \<Rightarrow> error + ('u GameObject \<times> 'u Game)" where
  "create_explosion g =
     (case textures g ''Explosion.png'' of
        None \<Rightarrow> Inl AssertFailed
      | Some tex \<Rightarrow>
          (case audios g ''explosionCrunch_000.wav'' of
             None \<Rightarrow> Inl AssertFailed
           | Some buf \<Rightarrow>
               Inr (default_object
                      \<lparr>tag := ''explosion'',
                       transform := \<lparr>position = Vec2 0 0, scale = Vec2 (1/10) (1/10), rotation = 0\<rparr>,
                       prev_transform := \<lparr>position = Vec2 0 0, scale = Vec2 (1/10) (1/10), rotation = 0\<rparr>,
                       motion := \<lparr>velocity = Vec2 0 0, acceleration = Vec2 0 0\<rparr>,
                       glo := Some (next_name g),
                       texture := Some tex,
                       sprite_animation :=
                         Some \<lparr>last_transit_dt = 0, curr_frame_idx = 0, frames = explosion_frames,
                               curr_cycle_count = 0, max_cycles = 1\<rparr>,
                       sound := Some (next_name g + 1)\<rparr>,
                    g\<lparr>next_name := next_name g + 2\<rparr>)))"

text \<open>\<^verbatim>\<open>create_player_projectile\<close>.\<close>

definition create_player_projectile :: "'u Game \<Rightarrow> error + ('u GameObject \<times> 'u Game)" where
  "create_player_projectile g =
     (case textures g ''Projectile01.png'' of
        None \<Rightarrow> Inl AssertFailed
      | Some tex \<Rightarrow>
          (case audios g ''laser-14729.wav'' of
             None \<Rightarrow> Inl AssertFailed
           | Some buf \<Rightarrow>
               Inr (default_object
                      \<lparr>tag := ''projectile'',
                       transform := \<lparr>position = Vec2 0 0, scale = Vec2 (15/100) (15/100), rotation = 0\<rparr>,
                       prev_transform := \<lparr>position = Vec2 0 0, scale = Vec2 (15/100) (15/100), rotation = 0\<rparr>,
                       motion := \<lparr>velocity = Vec2 0 (26/10), acceleration = Vec2 0 0\<rparr>,
                       glo := Some (next_name g),
                       texture := Some tex,
                       aabb := Some \<lparr>aabb_min = Vec2 (-11/100) (-38/100),
                                     aabb_max = Vec2 (7/100) (30/100)\<rparr>,
                       offscreen_destroy := True,
                       sound := Some (next_name g + 1)\<rparr>,
                    g\<lparr>next_name := next_name g + 2\<rparr>)))"

text \<open>
  The closure \<^verbatim>\<open>spawn_projectile\<close> of \<^verbatim>\<open>key_space_handler\<close>: two projectiles left and
  right of the player, which share the \<^verbatim>\<open>GLObject\<close> and the sound source; the sound of the
  last one is played. \<^verbatim>\<open>player()\<close> is \<^verbatim>\<open>spaceship.front()\<close>.
\<close>

definition spawn_projectile :: "'u Game \<Rightarrow> error + 'u Game" where
  "spawn_projectile g =
     (case objects g Spaceship of
        [] \<Rightarrow> Inl IndexOutOfRange
      | player # rest \<Rightarrow>
          err_bind (create_player_projectile g) (\<lambda>(projectile, g1).
            let pos = position (transform player);
                t1 = (transform projectile)
                       \<lparr>position := Vec2 (vx pos - 62/1000 + 5/1000) (vy pos + 125/1000)\<rparr>;
                p1 = projectile\<lparr>transform := t1, prev_transform := t1\<rparr>;
                t2 = (transform projectile)
                       \<lparr>position := Vec2 (vx pos + 62/1000) (vy pos + 125/1000)\<rparr>;
                p2 = projectile\<lparr>transform := t2, prev_transform := t2\<rparr>;
                g2 = set_layer Projectile (objects g1 Projectile @ [p1, p2]) g1
            in (case sound p2 of
                  None \<Rightarrow> Inl EmptyOptional
                | Some src \<Rightarrow> Inr (play src g2))))"

text \<open>What invoking the \<^verbatim>\<open>std::function\<close> of a timed action does.\<close>

definition run_action :: "action_fn \<Rightarrow> 'u Game \<Rightarrow> real \<Rightarrow> real \<Rightarrow> error + 'u Game" where
  "run_action a g dt time =
     (case a of default_action \<Rightarrow> Inr g | spawn_projectile_action \<Rightarrow> spawn_projectile g)"

section \<open>Key handlers and pausing (main.cpp)\<close>

text \<open>The GLFW constants the handlers compare with (GLFW/glfw3.h).\<close>

abbreviation GLFW_RELEASE :: int where "GLFW_RELEASE \<equiv> 0"
abbreviation GLFW_PRESS :: int where "GLFW_PRESS \<equiv> 1"
abbreviation GLFW_REPEAT :: int where "GLFW_REPEAT \<equiv> 2"
abbreviation GLFW_KEY_SPACE :: int where "GLFW_KEY_SPACE \<equiv> 32"
abbreviation GLFW_KEY_RIGHT :: int where "GLFW_KEY_RIGHT \<equiv> 262"
abbreviation GLFW_KEY_LEFT :: int where "GLFW_KEY_LEFT \<equiv> 263"
abbreviation GLFW_KEY_DOWN :: int where "GLFW_KEY_DOWN \<equiv> 264"
abbreviation GLFW_KEY_UP :: int where "GLFW_KEY_UP \<equiv> 265"
abbreviation GLFW_KEY_F3 :: int where "GLFW_KEY_F3 \<equiv> 292"
abbreviation GLFW_KEY_F6 :: int where "GLFW_KEY_F6 \<equiv> 295"
abbreviation GLFW_KEY_F7 :: int where "GLFW_KEY_F7 \<equiv> 296"

text \<open>\<^verbatim>\<open>init_key_handlers\<close>, applied to the empty map.\<close>

definition init_key_handlers :: "int \<Rightarrow> key_handler option" where
  "init_key_handlers =
     [GLFW_KEY_LEFT \<mapsto> key_left_right_handler, GLFW_KEY_RIGHT \<mapsto> key_left_right_handler,
      GLFW_KEY_UP \<mapsto> key_up_down_handler, GLFW_KEY_DOWN \<mapsto> key_up_down_handler,
      GLFW_KEY_SPACE \<mapsto> key_space_handler, GLFW_KEY_F3 \<mapsto> key_f3_handler,
      GLFW_KEY_F6 \<mapsto> key_f6_handler, GLFW_KEY_F7 \<mapsto> key_f7_handler]"

text \<open>An assignment to a member of \<^verbatim>\<open>game.scene->player()\<close>.\<close>

definition player_update :: "('u GameObject \<Rightarrow> 'u GameObject) \<Rightarrow> 'u Game \<Rightarrow> error + 'u Game" where
  "player_update f g =
     (case objects g Spaceship of
        [] \<Rightarrow> Inl IndexOutOfRange
      | player # rest \<Rightarrow> Inr (set_layer Spaceship (f player # rest) g))"

definition set_motion_x :: "real \<Rightarrow> real \<Rightarrow> 'u GameObject \<Rightarrow> 'u GameObject" where
  "set_motion_x v a obj =
     obj\<lparr>motion := \<lparr>velocity = Vec2 v (vy (velocity (motion obj))),
                     acceleration = Vec2 a (vy (acceleration (motion obj)))\<rparr>\<rparr>"

definition set_motion_y :: "real \<Rightarrow> real \<Rightarrow> 'u GameObject \<Rightarrow> 'u GameObject" where
  "set_motion_y v a obj =
     obj\<lparr>motion := \<lparr>velocity = Vec2 (vx (velocity (motion obj))) v,
                     acceleration = Vec2 (vx (acceleration (motion obj))) a\<rparr>\<rparr>"

text \<open>
  The branch \<^verbatim>\<open>action == GLFW_PRESS || action == GLFW_REPEAT\<close> of the two arrow
  handlers, after their \<^verbatim>\<open>ASSERT\<close> on the key.
\<close>

definition arrows_x :: "'u Game \<Rightarrow> int \<Rightarrow> error + 'u Game" where
  "arrows_x g key =
     (if key \<noteq> GLFW_KEY_LEFT \<and> key \<noteq> GLFW_KEY_RIGHT then Inl AssertFailed
      else let direction = (if key = GLFW_KEY_LEFT then - 1 else 1) in
           player_update (set_motion_x (5/10 * direction) (18/10 * direction)) g)"

definition arrows_y :: "'u Game \<Rightarrow> int \<Rightarrow> error + 'u Game" where
  "arrows_y g key =
     (if key \<noteq> GLFW_KEY_UP \<and> key \<noteq> GLFW_KEY_DOWN then Inl AssertFailed
      else let direction = (if key = GLFW_KEY_UP then 1 else - 1) in
           player_update (set_motion_y (5/10 * direction) (12/10 * direction)) g)"

text \<open>
  What each handler does when it is called with \<^verbatim>\<open>GLFW_REPEAT\<close>. The arrow handlers call
  the handler of the opposite key with this action; no handler calls another one in this
  branch.
\<close>

definition handler_repeat :: "key_handler \<Rightarrow> 'u Game \<Rightarrow> int \<Rightarrow> error + 'u Game" where
  "handler_repeat h g key =
     (case h of
        key_left_right_handler \<Rightarrow> arrows_x g key
      | key_up_down_handler \<Rightarrow> arrows_y g key
      | key_space_handler \<Rightarrow> (if key \<noteq> GLFW_KEY_SPACE then Inl AssertFailed else Inr g)
      | key_f3_handler \<Rightarrow> Inr g
      | key_f7_handler \<Rightarrow> Inr g
      | key_f6_handler \<Rightarrow> Inr g)"

text \<open>
  The \<^verbatim>\<open>GLFW_RELEASE\<close> branch of an arrow handler. \<^verbatim>\<open>key_states.value()[other_key]\<close> adds
  the key with state \<^verbatim>\<open>false\<close> when the map has no such key; \<^verbatim>\<open>key_handlers.value()[other_key]\<close>
  of a key without handler yields an empty \<^verbatim>\<open>std::function\<close>, and calling it throws.
\<close>

definition arrows_release ::
  "(real \<Rightarrow> real \<Rightarrow> 'u GameObject \<Rightarrow> 'u GameObject) \<Rightarrow> 'u Game \<Rightarrow> int \<Rightarrow> error + 'u Game" where
  "arrows_release set_motion g other_key =
     (case map_of (key_states g) other_key of
        None \<Rightarrow>
          player_update (set_motion 0 0) (g\<lparr>key_states := key_states g @ [(other_key, False)]\<rparr>)
      | Some False \<Rightarrow> player_update (set_motion 0 0) g
      | Some True \<Rightarrow>
          (case key_handlers g other_key of
             None \<Rightarrow> Inl BadFunctionCall
           | Some h \<Rightarrow> handler_repeat h g other_key))"

text \<open>The handlers, for any action.\<close>

definition run_handler :: "key_handler \<Rightarrow> 'u Game \<Rightarrow> int \<Rightarrow> int \<Rightarrow> int \<Rightarrow> error + 'u Game" where
  "run_handler h g key act mods =
     (case h of
        key_left_right_handler \<Rightarrow>
          (if key \<noteq> GLFW_KEY_LEFT \<and> key \<noteq> GLFW_KEY_RIGHT then Inl AssertFailed
           else if act = GLFW_PRESS \<or> act = GLFW_REPEAT then arrows_x g key
           else if act = GLFW_RELEASE
             then arrows_release set_motion_x g
                    (if key = GLFW_KEY_LEFT then GLFW_KEY_RIGHT else GLFW_KEY_LEFT)
           else Inr g)
      | key_up_down_handler \<Rightarrow>
          (if key \<noteq> GLFW_KEY_UP \<and> key \<noteq> GLFW_KEY_DOWN then Inl AssertFailed
           else if act = GLFW_PRESS \<or> act = GLFW_REPEAT then arrows_y g key
           else if act = GLFW_RELEASE
             then arrows_release set_motion_y g
                    (if key = GLFW_KEY_UP then GLFW_KEY_DOWN else GLFW_KEY_UP)
           else Inr g)
      | key_space_handler \<Rightarrow>
          (if key \<noteq> GLFW_KEY_SPACE then Inl AssertFailed
           else if act = GLFW_PRESS then
             err_bind (spawn_projectile g) (\<lambda>g'.
               Inr (g'\<lparr>timed_actions :=
                         AList.update 0 \<lparr>tick_dt = 0, ta_duration = 150/1000,
                                          action = spawn_projectile_action\<rparr>
                           (timed_actions g')\<rparr>))
           else if act = GLFW_RELEASE
             then Inr (g\<lparr>timed_actions := AList.delete 0 (timed_actions g)\<rparr>)
           else Inr g)
      | key_f3_handler \<Rightarrow>
          Inr (if act = GLFW_PRESS then g\<lparr>debug_info := \<not> debug_info g\<rparr> else g)
      | key_f7_handler \<Rightarrow>
          Inr (if act = GLFW_PRESS then g\<lparr>aabbs := \<not> aabbs g\<rparr> else g)
      | key_f6_handler \<Rightarrow>
          Inr (if act = GLFW_PRESS then g\<lparr>vsync := \<not> vsync g\<rparr> else g))"

text \<open>
  The loop of \<^verbatim>\<open>game_pause\<close> over the keys of \<^verbatim>\<open>key_states\<close>: an active key becomes
  inactive and its handler, when it has one, is called with \<^verbatim>\<open>GLFW_RELEASE\<close>.
\<close>

fun release_keys :: "int list \<Rightarrow> 'u Game \<Rightarrow> error + 'u Game" where
  "release_keys [] g = Inr g"
| "release_keys (key # keys) g =
     (if map_of (key_states g) key = Some True then
        let g1 = g\<lparr>key_states := AList.update key False (key_states g)\<rparr> in
        (case key_handlers g1 key of
           None \<Rightarrow> release_keys keys g1
         | Some h \<Rightarrow> err_bind (run_handler h g1 key GLFW_RELEASE 0) (release_keys keys))
      else release_keys keys g)"

definition game_pause :: "'u Game \<Rightarrow> error + 'u Game" where
  "game_pause g =
     (if paused g then Inr g
      else err_bind (release_keys (map fst (key_states g)) g) (\<lambda>g'. Inr (g'\<lparr>paused := True\<rparr>)))"

definition game_resume :: "'u Game \<Rightarrow> 'u Game" where
  "game_resume g = (if \<not> paused g then g else g\<lparr>paused := False\<rparr>)"

section \<open>One simulation tick: \<^verbatim>\<open>game_update\<close> (main.cpp)\<close>

subsection \<open>Timed actions\<close>

text \<open>
  The loop over \<^verbatim>\<open>game.timed_actions\<close>. Neither action of the program touches the map of
  timed actions, so the updated entries are written back after the loop.
\<close>

fun update_timed_actions ::
  "(int \<times> TimedAction) list \<Rightarrow> 'u Game \<Rightarrow> real \<Rightarrow> real
     \<Rightarrow> error + ((int \<times> TimedAction) list \<times> 'u Game)" where
  "update_timed_actions [] g dt time = Inr ([], g)"
| "update_timed_actions ((k, ta) # rest) g dt time =
     err_bind (TimedAction_update run_action ta g dt time) (\<lambda>(ta', g').
       err_bind (update_timed_actions rest g' dt time) (\<lambda>(rest', g'').
         Inr ((k, ta') # rest', g'')))"

definition timed_action_system :: "'u Game \<Rightarrow> real \<Rightarrow> real \<Rightarrow> error + 'u Game" where
  "timed_action_system g dt time =
     err_bind (update_timed_actions (timed_actions g) g dt time) (\<lambda>(tas, g').
       Inr (g'\<lparr>timed_actions := tas\<rparr>))"

subsection \<open>Erasing\<close>

text \<open>
  The inner loop of the erasing system over one vector: an object with the
  \<^verbatim>\<open>delay_erasing\<close> component is erased, unless the component asks to wait for the sound,
  the object has a sound and the source is still playing.
\<close>

fun erase_loop :: "nat list \<Rightarrow> 'u GameObject list \<Rightarrow> 'u GameObject list" where
  "erase_loop pl [] = []"
| "erase_loop pl (obj # objs) =
     (case delay_erasing obj of
        None \<Rightarrow> obj # erase_loop pl objs
      | Some de \<Rightarrow>
          let erase = \<not> (de_sound de \<and> (case sound obj of None \<Rightarrow> False | Some src \<Rightarrow> src \<in> set pl))
          in if erase then erase_loop pl objs else obj # erase_loop pl objs)"

definition erasing_system :: "'u Game \<Rightarrow> 'u Game" where
  "erasing_system g =
     fold (\<lambda>l g. set_layer l (erase_loop (playing g) (objects g l)) g) all_lists g"

subsection \<open>Cursor picking\<close>

text \<open>
  \<^verbatim>\<open>Window::aspect_ratio()\<close> (core/window.hpp) and \<^verbatim>\<open>Cursor::normalized(window, viewport)\<close>
  (core/cursor.hpp). The sizes and the offset are vectors of unsigned integers. The
  quotient by a size that is 0, for which the program gets an infinity or a NaN, is not
  modelled.
\<close>

definition aspect_ratio :: "nat \<times> nat \<Rightarrow> real" where
  "aspect_ratio wsize = real (fst wsize) / real (snd wsize)"

definition normalized :: "vec2 \<Rightarrow> nat \<times> nat \<Rightarrow> nat \<times> nat \<Rightarrow> nat \<times> nat \<Rightarrow> vec2" where
  "normalized pos wsize vsize voffset =
     (let normal_max_width = 2 * aspect_ratio wsize;
          normal_max_height = 2;
          x = ((vx pos - real (fst voffset)) * normal_max_width) / real (fst vsize)
                - aspect_ratio wsize;
          y = ((vy pos - real (snd voffset)) * (- normal_max_height)) / real (snd vsize) + 1
      in Vec2 x y)"

text \<open>The loop of the cursor picking system runs over the spaceships, from the first to the last.\<close>

definition cursor_picking_system :: "'u Game \<Rightarrow> 'u Game" where
  "cursor_picking_system g =
     (let pixel_size = Vec2 (1 / real (fst (viewport_size g))) (1 / real (snd (viewport_size g)));
          cursor_pos = normalized (cursor g) (window_size g) (viewport_size g) (viewport_offset g);
          cursor_aabb = \<lparr>aabb_min = cursor_pos, aabb_max = vec2_add cursor_pos pixel_size\<rparr>
      in g\<lparr>hover :=
             fold (\<lambda>spaceship h.
                     case aabb spaceship of
                       None \<Rightarrow> h
                     | Some bb \<Rightarrow>
                         if collision cursor_aabb (world_aabb bb (transform spaceship))
                         then True else h)
                  (objects g Spaceship) False\<rparr>)"

subsection \<open>Updating every object\<close>

definition motion_system :: "real \<Rightarrow> 'u GameObject \<Rightarrow> 'u GameObject" where
  "motion_system dt obj =
     (let v = vec2_add (velocity (motion obj)) (vec2_scale (acceleration (motion obj)) dt) in
      obj\<lparr>motion := (motion obj)\<lparr>velocity := v\<rparr>,
          transform := (transform obj)
             \<lparr>position := vec2_add (position (transform obj)) (vec2_scale v dt)\<rparr>\<rparr>)"

definition sprite_animation_system :: "real \<Rightarrow> 'u GameObject \<Rightarrow> error + 'u GameObject" where
  "sprite_animation_system dt obj =
     (case sprite_animation obj of
        None \<Rightarrow> Inr obj
      | Some a \<Rightarrow>
          err_bind (update_frame a dt) (\<lambda>a'.
            let obj' = obj\<lparr>sprite_animation := Some a'\<rparr> in
            if expired a' \<and> delay_erasing obj' = None
            then Inr (obj'\<lparr>delay_erasing := Some \<lparr>de_sound = True\<rparr>,
                           transform := sentinel_transform,
                           prev_transform := sentinel_transform\<rparr>)
            else Inr obj'))"

text \<open>
  The custom update function. \<open>run u obj dt time s\<close> is what calling the closure \<open>u\<close> does
  to the object and to the state \<open>s\<close> the closures of the program have captured.
\<close>

definition custom_update_system ::
  "('u \<Rightarrow> 'u GameObject \<Rightarrow> real \<Rightarrow> real \<Rightarrow> 's \<Rightarrow> 'u GameObject \<times> 's)
     \<Rightarrow> real \<Rightarrow> real \<Rightarrow> 'u GameObject \<Rightarrow> 's \<Rightarrow> 'u GameObject \<times> 's" where
  "custom_update_system run dt time obj s =
     (case update obj of None \<Rightarrow> (obj, s) | Some u \<Rightarrow> run u obj dt time s)"

definition offscreen_destroy_system :: "Aabb \<Rightarrow> 'u GameObject \<Rightarrow> error + 'u GameObject" where
  "offscreen_destroy_system screen obj =
     (if offscreen_destroy obj then
        (case aabb obj of
           None \<Rightarrow> Inl EmptyOptional
         | Some bb \<Rightarrow>
             if \<not> collision (world_aabb bb (transform obj)) screen \<and> delay_erasing obj = None
             then Inr (obj\<lparr>delay_erasing := Some \<lparr>de_sound = True\<rparr>\<rparr>)
             else Inr obj)
      else Inr obj)"

definition screen_bound_system :: "Aabb \<Rightarrow> 'u GameObject \<Rightarrow> 'u GameObject" where
  "screen_bound_system screen obj =
     (if screen_bound obj then
        let pos = position (transform obj);
            x1 = (if vx pos < vx (aabb_min screen) then vx (aabb_min screen) else vx pos);
            y1 = (if vy pos < vy (aabb_min screen) then vy (aabb_min screen) else vy pos);
            x2 = (if x1 > vx (aabb_max screen) then vx (aabb_max screen) else x1);
            y2 = (if y1 > vy (aabb_max screen) then vy (aabb_max screen) else y1)
        in obj\<lparr>transform := (transform obj)\<lparr>position := Vec2 x2 y2\<rparr>\<rparr>
      else obj)"

text \<open>The body of the loop "Update all objects".\<close>

definition update_object ::
  "('u \<Rightarrow> 'u GameObject \<Rightarrow> real \<Rightarrow> real \<Rightarrow> 's \<Rightarrow> 'u GameObject \<times> 's)
     \<Rightarrow> Aabb \<Rightarrow> real \<Rightarrow> real \<Rightarrow> 'u GameObject \<Rightarrow> 's \<Rightarrow> error + ('u GameObject \<times> 's)" where
  "update_object run screen dt time obj s =
     err_bind (sprite_animation_system dt
                 (motion_system dt (obj\<lparr>prev_transform := transform obj\<rparr>))) (\<lambda>obj1.
       case custom_update_system run dt time obj1 s of
         (obj2, s') \<Rightarrow>
           err_bind (offscreen_destroy_system screen obj2) (\<lambda>obj3.
             Inr (screen_bound_system screen obj3, s')))"

fun update_list ::
  "('u \<Rightarrow> 'u GameObject \<Rightarrow> real \<Rightarrow> real \<Rightarrow> 's \<Rightarrow> 'u GameObject \<times> 's)
     \<Rightarrow> Aabb \<Rightarrow> real \<Rightarrow> real \<Rightarrow> 'u GameObject list \<Rightarrow> 's
     \<Rightarrow> error + ('u GameObject list \<times> 's)" where
  "update_list run screen dt time [] s = Inr ([], s)"
| "update_list run screen dt time (obj # objs) s =
     err_bind (update_object run screen dt time obj s) (\<lambda>(obj', s').
       err_bind (update_list run screen dt time objs s') (\<lambda>(objs', s'').
         Inr (obj' # objs', s'')))"

fun update_layers ::
  "('u \<Rightarrow> 'u GameObject \<Rightarrow> real \<Rightarrow> real \<Rightarrow> 's \<Rightarrow> 'u GameObject \<times> 's)
     \<Rightarrow> real \<Rightarrow> real \<Rightarrow> layer list \<Rightarrow> 'u Game \<Rightarrow> 's \<Rightarrow> error + ('u Game \<times> 's)" where
  "update_layers run dt time [] g s = Inr (g, s)"
| "update_layers run dt time (l # ls) g s =
     err_bind (update_list run (screen_aabb g) dt time (objects g l) s) (\<lambda>(objs, s').
       update_layers run dt time ls (set_layer l objs g) s')"

definition update_all_objects ::
  "('u \<Rightarrow> 'u GameObject \<Rightarrow> real \<Rightarrow> real \<Rightarrow> 's \<Rightarrow> 'u GameObject \<times> 's)
     \<Rightarrow> real \<Rightarrow> real \<Rightarrow> 'u Game \<Rightarrow> 's \<Rightarrow> error + ('u Game \<times> 's)" where
  "update_all_objects run dt time g s = update_layers run dt time all_lists g s"

subsection \<open>Collisions\<close>

text \<open>
  Both collision systems spawn an explosion in the same way: \<^verbatim>\<open>create_explosion\<close>, then
  the position is set, the previous transform follows, the sound is played and the object
  is appended to the explosion layer.
\<close>

definition spawn_explosion :: "vec2 \<Rightarrow> 'u Game \<Rightarrow> error + 'u Game" where
  "spawn_explosion pos g =
     err_bind (create_explosion g) (\<lambda>(explosion, g1).
       let t = (transform explosion)\<lparr>position := pos\<rparr>;
           explosion' = explosion\<lparr>transform := t, prev_transform := t\<rparr>
       in (case sound explosion' of
             None \<Rightarrow> Inl EmptyOptional
           | Some src \<Rightarrow>
               Inr (set_layer Explosion (objects g1 Explosion @ [explosion']) (play src g1))))"

text \<open>The projectile is marked and moved away, unless it is marked already.\<close>

definition retire_projectile :: "'u GameObject \<Rightarrow> 'u GameObject" where
  "retire_projectile projectile =
     (if delay_erasing projectile = None
      then projectile\<lparr>delay_erasing := Some \<lparr>de_sound = True\<rparr>,
                      transform := sentinel_transform,
                      prev_transform := sentinel_transform\<rparr>
      else projectile)"

text \<open>
  \<^verbatim>\<open>spaceship->health->value--\<close> and what follows it: the optional is read through
  \<^verbatim>\<open>operator->\<close> without a test, and decrementing \<^verbatim>\<open>INT_MIN\<close> overflows. The previous
  transform of a destroyed spaceship is set to the transform of the projectile.
\<close>

definition damage_spaceship :: "nat \<Rightarrow> Transform \<Rightarrow> 'u Game \<Rightarrow> error + 'u Game" where
  "damage_spaceship j projectile_transform g =
     (let spaceship = objects g Spaceship ! j in
      case health spaceship of
        None \<Rightarrow> Inl EmptyOptional
      | Some h \<Rightarrow>
          if h \<le> - (2 ^ 31) then Inl SignedOverflow
          else if h - 1 \<le> 0 then
            game_pause
              (set_layer Spaceship
                 (list_update (objects g Spaceship) j
                    (spaceship\<lparr>health := Some (h - 1),
                               delay_erasing := Some \<lparr>de_sound = True\<rparr>,
                               transform := sentinel_transform,
                               prev_transform := projectile_transform\<rparr>)) g)
          else
            Inr (set_layer Spaceship
                   (list_update (objects g Spaceship) j (spaceship\<lparr>health := Some (h - 1)\<rparr>)) g))"

text \<open>
  The body of the inner loop of the projectile/spaceship collision system, for the
  spaceship at index \<open>j\<close> and the projectile at index \<open>i\<close>. Both boxes are read through
  \<^verbatim>\<open>operator->\<close> of the optional, without a test.
\<close>

definition projectile_hit :: "nat \<Rightarrow> nat \<Rightarrow> 'u Game \<Rightarrow> error + 'u Game" where
  "projectile_hit j i g =
     (if i \<ge> length (objects g Projectile) \<or> j \<ge> length (objects g Spaceship)
      then Inl IndexOutOfRange
      else
        let projectile = objects g Projectile ! i;
            spaceship = objects g Spaceship ! j
        in (case (aabb projectile, aabb spaceship) of
              (Some pb, Some sb) \<Rightarrow>
                if collision (world_aabb pb (transform projectile))
                             (world_aabb sb (transform spaceship))
                then
                  err_bind (spawn_explosion (position (transform projectile)) g) (\<lambda>g2.
                    damage_spaceship j (transform (retire_projectile projectile))
                      (set_layer Projectile
                         (list_update (objects g2 Projectile) i (retire_projectile projectile)) g2))
                else Inr g
            | _ \<Rightarrow> Inl EmptyOptional))"

text \<open>
  The two loops: the spaceships from the second one on (the iterator is stepped once
  from \<^verbatim>\<open>begin()\<close>, which an empty vector does not allow), and for each all projectiles.
\<close>

definition projectile_collision_system :: "'u Game \<Rightarrow> error + 'u Game" where
  "projectile_collision_system g =
     (if objects g Spaceship = [] then Inl IndexOutOfRange
      else for_each
             (\<lambda>j g. for_each (projectile_hit j) [0..<length (objects g Projectile)] g)
             [1..<length (objects g Spaceship)] g)"

text \<open>The body of the loop of the player/enemy collision system, for the enemy at \<open>j\<close>.\<close>

definition player_hit :: "nat \<Rightarrow> 'u Game \<Rightarrow> error + 'u Game" where
  "player_hit j g =
     (if j \<ge> length (objects g Spaceship) then Inl IndexOutOfRange
      else
        let player = objects g Spaceship ! 0;
            enemy = objects g Spaceship ! j
        in (case (aabb player, aabb enemy) of
              (Some pb, Some eb) \<Rightarrow>
                if collision (world_aabb pb (transform player)) (world_aabb eb (transform enemy))
                then
                  err_bind (spawn_explosion (position (transform player)) g) (\<lambda>g2.
                    game_pause
                      (set_layer Spaceship
                         (list_update (objects g2 Spaceship) 0
                            ((objects g2 Spaceship ! 0)\<lparr>glo := None\<rparr>)) g2))
                else Inr g
            | _ \<Rightarrow> Inl EmptyOptional))"

definition player_collision_system :: "'u Game \<Rightarrow> error + 'u Game" where
  "player_collision_system g =
     (if paused g then Inr g
      else if objects g Spaceship = [] then Inl IndexOutOfRange
      else for_each player_hit [1..<length (objects g Spaceship)] g)"

subsection \<open>The tick\<close>

text \<open>The systems that run before the collision systems, in the order of the source.\<close>

definition pre_collision ::
  "('u \<Rightarrow> 'u GameObject \<Rightarrow> real \<Rightarrow> real \<Rightarrow> 's \<Rightarrow> 'u GameObject \<times> 's)
     \<Rightarrow> 'u Game \<Rightarrow> real \<Rightarrow> real \<Rightarrow> 's \<Rightarrow> error + ('u Game \<times> 's)" where
  "pre_collision run g dt time s =
     err_bind (timed_action_system g dt time) (\<lambda>g1.
       update_all_objects run dt time (cursor_picking_system (erasing_system g1)) s)"

definition game_update ::
  "('u \<Rightarrow> 'u GameObject \<Rightarrow> real \<Rightarrow> real \<Rightarrow> 's \<Rightarrow> 'u GameObject \<times> 's)
     \<Rightarrow> 'u Game \<Rightarrow> real \<Rightarrow> real \<Rightarrow> 's \<Rightarrow> error + ('u Game \<times> 's)" where
  "game_update run g dt time s =
     err_bind (pre_collision run g dt time s) (\<lambda>(g1, s').
       err_bind (projectile_collision_system g1) (\<lambda>g2.
         err_bind (player_collision_system g2) (\<lambda>g3. Inr (g3, s'))))"

section \<open>Rendering: the draw loops of \<^verbatim>\<open>game_render\<close> (main.cpp)\<close>

text \<open>
  The draw calls are the result. \<^verbatim>\<open>glm::lerp(x, y, a)\<close> is \<open>x * (1 - a) + y * a\<close>. The
  debug texts and the pause text, drawn after the objects and their boxes, are left out.
\<close>

datatype draw_call =
  Draw_textured nat nat Transform "SpriteFrame option"
| Draw_text TextFormat nat Transform
| Draw_colored nat Transform

definition lerp :: "real \<Rightarrow> real \<Rightarrow> real \<Rightarrow> real" where
  "lerp x y a = x * (1 - a) + y * a"

definition lerp2 :: "vec2 \<Rightarrow> vec2 \<Rightarrow> real \<Rightarrow> vec2" where
  "lerp2 p q a = Vec2 (lerp (vx p) (vx q) a) (lerp (vy p) (vy q) a)"

definition interpolate :: "'u GameObject \<Rightarrow> real \<Rightarrow> Transform" where
  "interpolate obj alpha =
     \<lparr>position = lerp2 (position (prev_transform obj)) (position (transform obj)) alpha,
      scale = lerp2 (scale (prev_transform obj)) (scale (transform obj)) alpha,
      rotation = lerp (rotation (prev_transform obj)) (rotation (transform obj)) alpha\<rparr>"

text \<open>The body of the loop for an object whose \<^verbatim>\<open>glo\<close> is the object named \<open>name\<close>.\<close>

definition draw_object :: "'u GameObject \<Rightarrow> nat \<Rightarrow> real \<Rightarrow> error + draw_call" where
  "draw_object obj name alpha =
     (case texture obj of
        Some tex \<Rightarrow>
          (case sprite_animation obj of
             Some a \<Rightarrow>
               if curr_frame_idx a \<ge> length (frames a) then Inl IndexOutOfRange
               else Inr (Draw_textured tex name (interpolate obj alpha)
                           (Some (frames a ! curr_frame_idx a)))
           | None \<Rightarrow> Inr (Draw_textured tex name (interpolate obj alpha) None))
      | None \<Rightarrow>
          (case text_fmt obj of
             Some fmt \<Rightarrow> Inr (Draw_text fmt name (interpolate obj alpha))
           | None \<Rightarrow> Inr (Draw_colored name (interpolate obj alpha))))"

text \<open>
  The loop over one layer, from \<^verbatim>\<open>rbegin()\<close> on; the argument is the layer in that
  order. The loop goes on while \<^verbatim>\<open>obj != rend() && obj->glo\<close>.
\<close>

fun render_loop :: "'u GameObject list \<Rightarrow> real \<Rightarrow> error + draw_call list" where
  "render_loop [] alpha = Inr []"
| "render_loop (obj # objs) alpha =
     (case glo obj of
        None \<Rightarrow> Inr []
      | Some name \<Rightarrow>
          err_bind (draw_object obj name alpha) (\<lambda>d.
            err_bind (render_loop objs alpha) (\<lambda>ds. Inr (d # ds))))"

fun render_layers :: "layer list \<Rightarrow> 'u Game \<Rightarrow> real \<Rightarrow> error + draw_call list" where
  "render_layers [] g alpha = Inr []"
| "render_layers (l # ls) g alpha =
     err_bind (render_loop (rev (objects g l)) alpha) (\<lambda>ds.
       err_bind (render_layers ls g alpha) (\<lambda>ds'. Inr (ds @ ds')))"

definition render_all_objects :: "'u Game \<Rightarrow> real \<Rightarrow> error + draw_call list" where
  "render_all_objects g alpha = render_layers all_lists g alpha"

text \<open>
  \<^verbatim>\<open>render_aabbs\<close>, which \<^verbatim>\<open>game_render\<close> calls when the option is set and the cursor
  hovers over a spaceship: the loop over one layer, from \<^verbatim>\<open>rbegin()\<close> on, and the loop over
  the layers. Every object with a box has the quad of this box drawn with the matrix of
  its transform; the result lists the boxes with these transforms.
\<close>

fun render_aabbs_loop :: "'u GameObject list \<Rightarrow> (Aabb \<times> Transform) list" where
  "render_aabbs_loop [] = []"
| "render_aabbs_loop (obj # objs) =
     (case aabb obj of
        None \<Rightarrow> render_aabbs_loop objs
      | Some bb \<Rightarrow> (bb, transform obj) # render_aabbs_loop objs)"

definition render_aabbs :: "'u Game \<Rightarrow> (Aabb \<times> Transform) list" where
  "render_aabbs g = concat (map (\<lambda>l. render_aabbs_loop (rev (objects g l))) all_lists)"

definition render_boxes :: "'u Game \<Rightarrow> (Aabb \<times> Transform) list" where
  "render_boxes g = (if aabbs g \<and> hover g then render_aabbs g else [])"

section \<open>The frame loop: \<^verbatim>\<open>game_loop\<close> (main.cpp)\<close>

text \<open>
  The variables of the loop; those that hold a time are \<^verbatim>\<open>float\<close>s. The game is of any
  type \<open>'g\<close>; \<open>tick g dt time\<close> stands for \<^verbatim>\<open>glfwPollEvents(); game_update(game, dt, time)\<close>,
  and \<open>vsync_of\<close> reads \<^verbatim>\<open>game.vsync\<close>.
\<close>

record 'g Loop =
  loop_game :: 'g
  epochtime :: real
  last_time :: real
  update_lag :: real
  render_lag :: real

text \<open>\<^verbatim>\<open>constexpr float timestep = 1.f / 100.f\<close>: the rounded quotient of two exact literals.\<close>

definition timestep :: real where
  "timestep = f32 (1 / 100)"

text \<open>
  The loop \<^verbatim>\<open>while (update_lag >= timestep)\<close>, on the variables it changes. The difference
  \<^verbatim>\<open>update_lag -= timestep\<close> is rounded, so it need not be smaller than the lag was, and
  the loop need not end: the result \<open>None\<close> is that of a loop that runs forever.
\<close>

partial_function (option) catch_up ::
  "('g \<Rightarrow> real \<Rightarrow> real \<Rightarrow> error + 'g) \<Rightarrow> real \<Rightarrow> real \<Rightarrow> 'g
     \<Rightarrow> (error + real \<times> real \<times> 'g) option" where
  "catch_up tick lag epoch g =
     (if lag \<ge> timestep
      then (case tick g timestep epoch of
              Inl e \<Rightarrow> Some (Inl e)
            | Inr g' \<Rightarrow> catch_up tick (f32 (lag - timestep)) (f32 (epoch + timestep)) g')
      else Some (Inr (lag, epoch, g)))"

text \<open>
  One iteration of the outer loop. \<open>now\<close> is the reading of the clock, the \<^verbatim>\<open>double\<close> that
  \<^verbatim>\<open>glfwGetTime()\<close> returns, and \<open>refresh_rate\<close> the \<^verbatim>\<open>int\<close> of the video mode; both are
  converted to \<^verbatim>\<open>float\<close>. The result holds the new variables and the arguments
  \<open>(frame_time, alpha)\<close> of the call of \<^verbatim>\<open>game_render\<close>, if there is one. The sleep at the
  end of the iteration changes no variable.
\<close>

definition loop_iteration ::
  "('g \<Rightarrow> real \<Rightarrow> real \<Rightarrow> error + 'g) \<Rightarrow> ('g \<Rightarrow> bool) \<Rightarrow> int \<Rightarrow> real \<Rightarrow> 'g Loop
     \<Rightarrow> (error + 'g Loop \<times> (real \<times> real) option) option" where
  "loop_iteration tick vsync_of refresh_rate now st =
     (let now_time = f32 now;
          loop_time = f32 (now_time - last_time st)
      in case catch_up tick (f32 (update_lag st + loop_time)) (epochtime st) (loop_game st) of
           None \<Rightarrow> None
         | Some (Inl e) \<Rightarrow> Some (Inl e)
         | Some (Inr (lag, epoch, g)) \<Rightarrow>
             let rlag = f32 (render_lag st + loop_time);
                 render_interval =
                   (if vsync_of g then f32 (1 / f32 (f32 (of_int refresh_rate) + 1/2)) else 0);
                 st' = st\<lparr>loop_game := g, epochtime := epoch, last_time := now_time,
                          update_lag := lag\<rparr>
             in if rlag \<ge> render_interval
                then Some (Inr (st'\<lparr>render_lag := 0\<rparr>, Some (rlag, f32 (lag / timestep))))
                else Some (Inr (st'\<lparr>render_lag := rlag\<rparr>, None)))"

text \<open>
  The outer loop, run for a list of clock readings (one per iteration, until the window
  closes): the final variables and the arguments of all calls of \<^verbatim>\<open>game_render\<close>.
\<close>

fun game_loop ::
  "('g \<Rightarrow> real \<Rightarrow> real \<Rightarrow> error + 'g) \<Rightarrow> ('g \<Rightarrow> bool) \<Rightarrow> int \<Rightarrow> real list \<Rightarrow> 'g Loop
     \<Rightarrow> (error + 'g Loop \<times> (real \<times> real) list) option" where
  "game_loop tick vsync_of refresh_rate [] st = Some (Inr (st, []))"
| "game_loop tick vsync_of refresh_rate (now # nows) st =
     (case loop_iteration tick vsync_of refresh_rate now st of
        None \<Rightarrow> None
      | Some (Inl e) \<Rightarrow> Some (Inl e)
      | Some (Inr (st', r)) \<Rightarrow>
          (case game_loop tick vsync_of refresh_rate nows st' of
             None \<Rightarrow> None
           | Some (Inl e) \<Rightarrow> Some (Inl e)
           | Some (Inr (st'', rs)) \<Rightarrow>
               Some (Inr (st'', (case r of None \<Rightarrow> rs | Some call \<Rightarrow> call # rs)))))"

text \<open>The variables as \<^verbatim>\<open>game_loop\<close> initialises them.\<close>

definition initial_loop :: "'g \<Rightarrow> 'g Loop" where
  "initial_loop g = \<lparr>loop_game = g, epochtime = 0, last_time = 0, update_lag = 0, render_lag = 0\<rparr>"

section \<open>Observing the order of iteration\<close>

text \<open>
  An update closure that appends the tag of the object it is called on to a log it has
  captured, and changes nothing else. The log then lists the objects with an update
  component in the order in which "Update all objects" visits them.
\<close>

definition log_tag :: "'u \<Rightarrow> 'u GameObject \<Rightarrow> real \<Rightarrow> real \<Rightarrow> string list \<Rightarrow> 'u GameObject \<times> string list" where
  "log_tag u obj dt time s = (obj, s @ [tag obj])"

text \<open>The name of the \<^verbatim>\<open>GLObject\<close> a draw call draws.\<close>

fun drawn :: "draw_call \<Rightarrow> nat" where
  "drawn (Draw_textured tex name t f) = name"
| "drawn (Draw_text fmt name t) = name"
| "drawn (Draw_colored name t) = name"

text \<open>
  The box of one pixel at the cursor that the cursor picking system tests the spaceships
  against, and the test it makes on a spaceship.
\<close>

definition cursor_aabb :: "'u Game \<Rightarrow> Aabb" where
  "cursor_aabb g =
     (let pixel_size = Vec2 (1 / real (fst (viewport_size g))) (1 / real (snd (viewport_size g)));
          cursor_pos = normalized (cursor g) (window_size g) (viewport_size g) (viewport_offset g)
      in \<lparr>aabb_min = cursor_pos, aabb_max = vec2_add cursor_pos pixel_size\<rparr>)"

definition under_cursor :: "'u Game \<Rightarrow> 'u GameObject \<Rightarrow> bool" where
  "under_cursor g obj \<longleftrightarrow>
     (case aabb obj of
        None \<Rightarrow> False
      | Some bb \<Rightarrow> collision (cursor_aabb g) (world_aabb bb (transform obj)))"

text \<open>A game with no objects, and a scene with one object in the back layer and one in the front layer.\<close>

definition empty_game :: "'u Game" where
  "empty_game =
     \<lparr>paused = False, vsync = True, hover = False, cursor = Vec2 0 0,
      window_size = (1280, 720), viewport_offset = (0, 0), viewport_size = (1280, 720),
      objects = (\<lambda>l. []),
      audios = [''laser-14729.wav'' \<mapsto> 1, ''explosionCrunch_000.wav'' \<mapsto> 2],
      textures = [''Explosion.png'' \<mapsto> 3, ''Projectile01.png'' \<mapsto> 4],
      key_handlers = init_key_handlers, key_states = [], timed_actions = [],
      screen_aabb = \<lparr>aabb_min = Vec2 (- kAspectRatio) (- 1), aabb_max = Vec2 kAspectRatio 1\<rparr>,
      debug_info = False, aabbs = False, playing = [], next_name = 5\<rparr>"

definition two_layer_game :: "unit Game" where
  "two_layer_game =
     set_layer Background [default_object\<lparr>tag := ''background'', update := Some ()\<rparr>]
       (set_layer Text [default_object\<lparr>tag := ''text'', update := Some ()\<rparr>] empty_game)"

section \<open>Notions used to state the properties of a tick\<close>

text \<open>The world-space box of an object that has a bounding box.\<close>

definition object_box :: "'u GameObject \<Rightarrow> Aabb" where
  "object_box obj = world_aabb (the (aabb obj)) (transform obj)"

text \<open>
  The pairs \<open>(j, i)\<close> of a spaceship and a projectile that the projectile/spaceship
  collision system finds overlapping, in the order in which its loops come to them. The
  test is the one of the loop body, on the boxes the two objects have when the loops come
  to the pair; the list ends where the system fails.
\<close>

definition overlapping :: "nat \<Rightarrow> nat \<Rightarrow> 'u Game \<Rightarrow> bool" where
  "overlapping j i g \<longleftrightarrow>
     collision (object_box (objects g Projectile ! i)) (object_box (objects g Spaceship ! j))"

fun projectile_loop_found :: "nat \<Rightarrow> nat list \<Rightarrow> 'u Game \<Rightarrow> (nat \<times> nat) list" where
  "projectile_loop_found j [] g = []"
| "projectile_loop_found j (i # is) g =
     (case projectile_hit j i g of
        Inl e \<Rightarrow> []
      | Inr g' \<Rightarrow> (if overlapping j i g then [(j, i)] else []) @ projectile_loop_found j is g')"

fun spaceship_loop_found :: "nat list \<Rightarrow> 'u Game \<Rightarrow> (nat \<times> nat) list" where
  "spaceship_loop_found [] g = []"
| "spaceship_loop_found (j # js) g =
     projectile_loop_found j [0..<length (objects g Projectile)] g @
     (case for_each (projectile_hit j) [0..<length (objects g Projectile)] g of
        Inl e \<Rightarrow> []
      | Inr g' \<Rightarrow> spaceship_loop_found js g')"

definition overlaps_found :: "'u Game \<Rightarrow> (nat \<times> nat) list" where
  "overlaps_found g = spaceship_loop_found [1..<length (objects g Spaceship)] g"

text \<open>The caches hold what \<^verbatim>\<open>create_explosion\<close> asks for (\<^verbatim>\<open>game_init\<close> loads both).\<close>

definition explosion_resources :: "'u Game \<Rightarrow> bool" where
  "explosion_resources g \<longleftrightarrow>
     textures g ''Explosion.png'' \<noteq> None \<and> audios g ''explosionCrunch_000.wav'' \<noteq> None"

text \<open>
  What pausing may change: the motion of the player (through the handlers of released
  keys), the key states and the timed actions.
\<close>

definition released :: "'u Game \<Rightarrow> Motion \<Rightarrow> (int \<times> bool) list \<Rightarrow> (int \<times> TimedAction) list \<Rightarrow> 'u Game" where
  "released g m ks tas =
     g\<lparr>objects := (objects g)
          (Spaceship := (hd (objects g Spaceship))\<lparr>motion := m\<rparr> # tl (objects g Spaceship)),
       key_states := ks, timed_actions := tas\<rparr>"

text \<open>
  What the collision systems leave as it is when they run on: the projectiles, all
  spaceships but the player, box and transform of the player, and the explosions there
  are; the caches and the key handlers.
\<close>

definition later :: "'u Game \<Rightarrow> 'u Game \<Rightarrow> bool" where
  "later g g' \<longleftrightarrow>
     objects g' Projectile = objects g Projectile \<and>
     objects g' Spaceship \<noteq> [] \<and>
     tl (objects g' Spaceship) = tl (objects g Spaceship) \<and>
     aabb (hd (objects g' Spaceship)) = aabb (hd (objects g Spaceship)) \<and>
     transform (hd (objects g' Spaceship)) = transform (hd (objects g Spaceship)) \<and>
     (\<exists>ex. objects g' Explosion = objects g Explosion @ ex) \<and>
     key_handlers g' = key_handlers g \<and> textures g' = textures g \<and> audios g' = audios g"

text \<open>Two states whose spaceships and projectiles carry the same boxes, one by one.\<close>

definition same_boxes :: "'u Game \<Rightarrow> 'u Game \<Rightarrow> bool" where
  "same_boxes g g' \<longleftrightarrow>
     map aabb (objects g' Spaceship) = map aabb (objects g Spaceship) \<and>
     map aabb (objects g' Projectile) = map aabb (objects g Projectile)"

section \<open>The scene of \<^verbatim>\<open>game_init\<close> (main.cpp)\<close>

text \<open>The two update closures \<^verbatim>\<open>game_init\<close> installs, on the background and on the enemy.\<close>

datatype update_fn = background_update | enemy_update

definition run_update_fn ::
  "update_fn \<Rightarrow> update_fn GameObject \<Rightarrow> real \<Rightarrow> real \<Rightarrow> 's \<Rightarrow> update_fn GameObject \<times> 's" where
  "run_update_fn u obj dt time s =
     (case u of
        background_update \<Rightarrow>
          (let pos = position (transform obj);
               v = velocity (motion obj);
               v1 = (if vx pos < - (3/100) \<or> vx pos \<ge> 3/100 then Vec2 (- vx v) (vy v) else v);
               v2 = (if vy pos < - (3/100) \<or> vy pos \<ge> 3/100 then Vec2 (vx v1) (- vy v1) else v1)
           in (obj\<lparr>motion := (motion obj)\<lparr>velocity := v2\<rparr>\<rparr>, s))
      | enemy_update \<Rightarrow>
          (obj\<lparr>transform := (transform obj)
                 \<lparr>position := Vec2 (sin time * (4/10)) (vy (position (transform obj)))\<rparr>\<rparr>, s))"

text \<open>The frames of both spaceship sprites; the duration \<^verbatim>\<open>0.15\<close> is converted to \<^verbatim>\<open>float\<close>.\<close>

definition ship_frames :: "SpriteFrame list" where
  "ship_frames =
     [\<lparr>duration = f32 (15/100), ebo_offset = 0, ebo_count = 6\<rparr>,
      \<lparr>duration = f32 (15/100), ebo_offset = 12, ebo_count = 6\<rparr>,
      \<lparr>duration = f32 (15/100), ebo_offset = 24, ebo_count = 6\<rparr>,
      \<lparr>duration = f32 (15/100), ebo_offset = 36, ebo_count = 6\<rparr>]"

text \<open>
  The objects \<^verbatim>\<open>game_init\<close> creates. The names of textures and GL objects are those the
  libraries hand out; here they are numbered in the order of creation.
\<close>

definition init_background :: "update_fn GameObject" where
  "init_background =
     default_object
       \<lparr>tag := ''background'',
        transform := \<lparr>position = Vec2 0 0, scale = Vec2 (kAspectRatio + 1/10) (11/10), rotation = 0\<rparr>,
        prev_transform := \<lparr>position = Vec2 0 0, scale = Vec2 (kAspectRatio + 1/10) (11/10), rotation = 0\<rparr>,
        motion := \<lparr>velocity = Vec2 (14/1000) (4/1000), acceleration = Vec2 0 0\<rparr>,
        glo := Some 6, texture := Some 5, update := Some background_update\<rparr>"

definition init_player :: "update_fn GameObject" where
  "init_player =
     default_object
       \<lparr>tag := ''player'',
        transform := \<lparr>position = Vec2 0 (- (7/10)), scale = Vec2 (1/10) (1/10), rotation = 0\<rparr>,
        prev_transform := \<lparr>position = Vec2 0 (- (7/10)), scale = Vec2 (1/10) (1/10), rotation = 0\<rparr>,
        motion := \<lparr>velocity = Vec2 0 0, acceleration = Vec2 0 0\<rparr>,
        glo := Some 8, texture := Some 7,
        sprite_animation :=
          Some \<lparr>last_transit_dt = 0, curr_frame_idx = 0, frames = ship_frames,
                curr_cycle_count = 0, max_cycles = 0\<rparr>,
        aabb := Some \<lparr>aabb_min = Vec2 (- (80/100)) (- (70/100)), aabb_max = Vec2 (82/100) (70/100)\<rparr>,
        screen_bound := True\<rparr>"

definition init_enemy :: "update_fn GameObject" where
  "init_enemy =
     default_object
       \<lparr>tag := ''enemy'',
        transform := \<lparr>position = Vec2 0 (5/10), scale = Vec2 (8/100) (- (8/100)), rotation = 0\<rparr>,
        prev_transform := \<lparr>position = Vec2 0 (5/10), scale = Vec2 (8/100) (- (8/100)), rotation = 0\<rparr>,
        motion := \<lparr>velocity = Vec2 0 0, acceleration = Vec2 0 0\<rparr>,
        glo := Some 10, texture := Some 9,
        sprite_animation :=
          Some \<lparr>last_transit_dt = 0, curr_frame_idx = 0, frames = ship_frames,
                curr_cycle_count = 0, max_cycles = 0\<rparr>,
        update := Some enemy_update,
        aabb := Some \<lparr>aabb_min = Vec2 (- (55/100)) (- (50/100)), aabb_max = Vec2 (55/100) (50/100)\<rparr>,
        health := Some 10\<rparr>"

definition init_game :: "update_fn Game" where
  "init_game =
     \<lparr>paused = False, vsync = True, hover = False, cursor = Vec2 0 0,
      window_size = (1280, 720), viewport_offset = (0, 0), viewport_size = (1280, 720),
      objects = (\<lambda>l. [])(Background := [init_background], Spaceship := [init_player, init_enemy]),
      audios = [''laser-14729.wav'' \<mapsto> 1, ''explosionCrunch_000.wav'' \<mapsto> 2],
      textures = [''Explosion.png'' \<mapsto> 3, ''Projectile01.png'' \<mapsto> 4,
                  ''background03.png'' \<mapsto> 5, ''Paranoid.png'' \<mapsto> 7, ''UFO.png'' \<mapsto> 9],
      key_handlers = init_key_handlers, key_states = [], timed_actions = [],
      screen_aabb = \<lparr>aabb_min = Vec2 (- kAspectRatio) (- 1), aabb_max = Vec2 kAspectRatio 1\<rparr>,
      debug_info = False, aabbs = False, playing = [], next_name = 11\<rparr>"

text \<open>
  A projectile as \<^verbatim>\<open>create_player_projectile\<close> makes it, placed at a position, and the
  scene of the end-to-end scenarios: the scene of \<^verbatim>\<open>game_init\<close> with projectiles in the
  projectile layer (on top of the enemy at \<open>(0, 0.5)\<close>, say).
\<close>

definition projectile_at :: "vec2 \<Rightarrow> update_fn GameObject" where
  "projectile_at pos =
     default_object
       \<lparr>tag := ''projectile'',
        transform := \<lparr>position = pos, scale = Vec2 (15/100) (15/100), rotation = 0\<rparr>,
        prev_transform := \<lparr>position = pos, scale = Vec2 (15/100) (15/100), rotation = 0\<rparr>,
        motion := \<lparr>velocity = Vec2 0 (26/10), acceleration = Vec2 0 0\<rparr>,
        glo := Some 11, texture := Some 4,
        aabb := Some \<lparr>aabb_min = Vec2 (-11/100) (-38/100), aabb_max = Vec2 (7/100) (30/100)\<rparr>,
        offscreen_destroy := True,
        sound := Some 12\<rparr>"

definition scenario :: "update_fn GameObject list \<Rightarrow> update_fn Game" where
  "scenario projectiles = set_layer Projectile projectiles (init_game\<lparr>next_name := 13\<rparr>)"

text \<open>
  The same scene with a second enemy, at the origin, and two projectiles, one on top of
  each enemy.
\<close>

definition two_enemies :: "update_fn Game" where
  "two_enemies =
     set_layer Spaceship
       [init_player, init_enemy,
        init_enemy\<lparr>transform := (transform init_enemy)\<lparr>position := Vec2 0 0\<rparr>,
                   prev_transform := (prev_transform init_enemy)\<lparr>position := Vec2 0 0\<rparr>\<rparr>]
       (scenario [projectile_at (Vec2 0 (5/10)), projectile_at (Vec2 0 0)])"

section \<open>Properties\<close>

subsection \<open>Rounding to single precision\<close>

lemma bits_le_iff: "bits n \<le> k \<longleftrightarrow> n < 2 ^ k"
proof (induction n arbitrary: k rule: bits.induct)
  case (1 n)
  show ?case
  proof (cases "n = 0")
    case True
    then show ?thesis by (simp add: bits.simps)
  next
    case False
    show ?thesis
    proof (cases k)
      case 0
      with False show ?thesis by (simp add: bits.simps [of n])
    next
      case (Suc k')
      from "1.IH" [OF False, of k'] have "bits (n div 2) \<le> k' \<longleftrightarrow> n div 2 < 2 ^ k'" .
      moreover have "n div 2 < 2 ^ k' \<longleftrightarrow> n < 2 ^ Suc k'" by auto
      ultimately show ?thesis using False Suc by (simp add: bits.simps [of n])
    qed
  qed
qed

lemma tiny_pos: "0 < tiny"
  by (simp add: tiny_def)

lemma expo_le_iff: "expo x \<le> e \<longleftrightarrow> \<bar>x\<bar> < 2 ^ (e + 24) * tiny"
proof -
  let ?X = "\<bar>x\<bar> / tiny"
  have "expo x \<le> e \<longleftrightarrow> bits (nat \<lfloor>?X\<rfloor>) \<le> e + 24" by (auto simp: expo_def)
  also have "\<dots> \<longleftrightarrow> nat \<lfloor>?X\<rfloor> < 2 ^ (e + 24)" by (rule bits_le_iff)
  also have "\<dots> \<longleftrightarrow> \<lfloor>?X\<rfloor> < 2 ^ (e + 24)" by (simp add: nat_less_iff)
  also have "\<dots> \<longleftrightarrow> ?X < 2 ^ (e + 24)"
    using floor_less_iff [of ?X "2 ^ (e + 24)"] by simp
  also have "\<dots> \<longleftrightarrow> \<bar>x\<bar> < 2 ^ (e + 24) * tiny"
    using tiny_pos by (simp add: pos_divide_less_eq)
  finally show ?thesis .
qed

lemma expo_upper: "\<bar>x\<bar> < 2 ^ (expo x + 24) * tiny"
  using expo_le_iff [of x "expo x"] by simp

lemma expo_lower: "0 < expo x \<Longrightarrow> 2 ^ (expo x + 23) * tiny \<le> \<bar>x\<bar>"
proof -
  assume pos: "0 < expo x"
  then have "\<not> expo x \<le> expo x - 1" by simp
  then have "2 ^ (expo x - 1 + 24) * tiny \<le> \<bar>x\<bar>" by (simp only: expo_le_iff not_less)
  moreover from pos have "expo x - 1 + 24 = expo x + 23" by simp
  ultimately show ?thesis by (simp only:)
qed

lemma expo_mono: "\<bar>x\<bar> \<le> \<bar>y\<bar> \<Longrightarrow> expo x \<le> expo y"
  using expo_upper [of y] by (simp only: expo_le_iff)

lemma ulp_pos: "0 < ulp x"
  using tiny_pos by (simp add: ulp_def)

lemma rne_of_int [simp]: "rne (of_int k) = k"
  by (simp add: rne_def)

lemma rne_bounds: "\<lfloor>y\<rfloor> \<le> rne y" "rne y \<le> \<lfloor>y\<rfloor> + 1"
  by (simp_all add: rne_def Let_def)

lemma rne_mono: "y \<le> z \<Longrightarrow> rne y \<le> rne z"
proof -
  assume le: "y \<le> z"
  then have fl: "\<lfloor>y\<rfloor> \<le> \<lfloor>z\<rfloor>" by (rule floor_mono)
  show ?thesis
  proof (cases "\<lfloor>y\<rfloor> = \<lfloor>z\<rfloor>")
    case True
    with le show ?thesis by (auto simp: rne_def Let_def)
  next
    case False
    with fl have "\<lfloor>y\<rfloor> + 1 \<le> \<lfloor>z\<rfloor>" by simp
    with rne_bounds(2) [of y] rne_bounds(1) [of z] show ?thesis by linarith
  qed
qed

lemma rne_error: "\<bar>of_int (rne y) - y\<bar> \<le> 1/2"
proof -
  have "of_int \<lfloor>y\<rfloor> \<le> y" "y < of_int \<lfloor>y\<rfloor> + 1" by linarith+
  then show ?thesis by (auto simp: rne_def Let_def abs_le_iff)
qed

lemma rne_minus: "rne (- y) = - rne y"
proof (cases "y = of_int \<lfloor>y\<rfloor>")
  case True
  then obtain k where k: "y = of_int k" ..
  then have "- y = of_int (- k)" by simp
  then have "rne (- y) = - k" by (simp only: rne_of_int)
  with k show ?thesis by simp
next
  case False
  have b: "of_int \<lfloor>y\<rfloor> < y" "y < of_int \<lfloor>y\<rfloor> + 1" using False by linarith+
  have fm: "\<lfloor>- y\<rfloor> = - \<lfloor>y\<rfloor> - 1"
  proof (rule floor_unique)
    show "of_int (- \<lfloor>y\<rfloor> - 1) \<le> - y" using b by simp linarith
    show "- y < of_int (- \<lfloor>y\<rfloor> - 1) + 1" using b by simp
  qed
  show ?thesis
    unfolding rne_def Let_def fm using b by (auto simp: field_simps)
qed

lemma rne_abs_le:
  assumes "\<bar>y\<bar> \<le> of_int m"
  shows "\<bar>rne y\<bar> \<le> m"
proof -
  from assms have "y \<le> of_int m" "of_int (- m) \<le> y" by simp_all
  from rne_mono [OF this(1)] rne_mono [OF this(2)] show ?thesis
    by (simp add: abs_le_iff rne_minus)
qed

lemma f32_zero [simp]: "f32 0 = 0"
  by (simp add: f32_def rne_def)

lemma f32_minus: "f32 (- x) = - f32 x"
  by (simp add: f32_def ulp_def expo_def rne_minus)

lemma f32_nonneg: "0 \<le> x \<Longrightarrow> 0 \<le> f32 x"
proof -
  assume "0 \<le> x"
  then have "of_int 0 \<le> x / ulp x" using ulp_pos [of x] by simp
  from rne_mono [OF this] have "0 \<le> rne (x / ulp x)" by (simp only: rne_of_int)
  then show ?thesis using ulp_pos [of x] by (simp add: f32_def)
qed

lemma f32_upper:
  assumes "0 \<le> x"
  shows "f32 x \<le> 2 ^ (expo x + 24) * tiny"
proof -
  have "x / ulp x \<le> of_int (2 ^ 24)"
    using expo_upper [of x] assms tiny_pos
    by (simp add: ulp_def power_add pos_divide_le_eq mult.assoc mult.left_commute)
  from rne_mono [OF this] have "rne (x / ulp x) \<le> 2 ^ 24" by (simp only: rne_of_int)
  then have "of_int (rne (x / ulp x)) \<le> (of_int (2 ^ 24) :: real)"
    by (simp only: of_int_le_iff)
  then have "f32 x \<le> of_int (2 ^ 24) * ulp x"
    unfolding f32_def using ulp_pos [of x] by (rule mult_right_mono [OF _ less_imp_le])
  then show ?thesis by (simp add: ulp_def power_add mult.assoc mult.left_commute)
qed

lemma f32_lower:
  assumes "0 \<le> x" and "0 < expo x"
  shows "2 ^ (expo x + 23) * tiny \<le> f32 x"
proof -
  have "of_int (2 ^ 23) \<le> x / ulp x"
    using expo_lower [OF assms(2)] assms(1) tiny_pos
    by (simp add: ulp_def power_add pos_le_divide_eq mult.assoc mult.left_commute)
  from rne_mono [OF this] have "2 ^ 23 \<le> rne (x / ulp x)" by (simp only: rne_of_int)
  then have "(of_int (2 ^ 23) :: real) \<le> of_int (rne (x / ulp x))"
    by (simp only: of_int_le_iff)
  then have "of_int (2 ^ 23) * ulp x \<le> f32 x"
    unfolding f32_def using ulp_pos [of x] by (rule mult_right_mono [OF _ less_imp_le])
  then show ?thesis by (simp add: ulp_def power_add mult.assoc mult.left_commute)
qed

lemma f32_mono_nonneg:
  assumes "0 \<le> x" and "x \<le> y"
  shows "f32 x \<le> f32 y"
proof -
  from assms have y: "0 \<le> y" by simp
  from assms have "expo x \<le> expo y" by (intro expo_mono) simp
  then consider "expo x = expo y" | "expo x < expo y" by linarith
  then show ?thesis
  proof cases
    case 1
    then have u: "ulp x = ulp y" by (simp add: ulp_def)
    from assms(2) have "x / ulp y \<le> y / ulp y"
      using ulp_pos [of y] by (simp add: divide_right_mono)
    from rne_mono [OF this] show ?thesis
      using ulp_pos [of y] by (simp add: f32_def u)
  next
    case 2
    then have pos: "0 < expo y" and le: "expo x + 24 \<le> expo y + 23" by simp_all
    have "f32 x \<le> 2 ^ (expo x + 24) * tiny" by (rule f32_upper [OF assms(1)])
    also have "\<dots> \<le> 2 ^ (expo y + 23) * tiny"
      using le tiny_pos by (intro mult_right_mono power_increasing) simp_all
    also have "\<dots> \<le> f32 y" by (rule f32_lower [OF y pos])
    finally show ?thesis .
  qed
qed

lemma f32_mono: "x \<le> y \<Longrightarrow> f32 x \<le> f32 y"
proof -
  assume le: "x \<le> y"
  consider "0 \<le> x" | "x < 0" "0 \<le> y" | "y < 0" by linarith
  then show ?thesis
  proof cases
    case 1
    from 1 le show ?thesis by (rule f32_mono_nonneg)
  next
    case 2
    from 2(1) have "0 \<le> f32 (- x)" by (intro f32_nonneg) simp
    then have "f32 x \<le> 0" by (simp add: f32_minus)
    also have "0 \<le> f32 y" by (rule f32_nonneg [OF 2(2)])
    finally show ?thesis .
  next
    case 3
    with le have "0 \<le> - y" "- y \<le> - x" by simp_all
    from f32_mono_nonneg [OF this] show ?thesis by (simp add: f32_minus)
  qed
qed

lemma f32_error: "\<bar>f32 x - x\<bar> \<le> ulp x / 2"
proof -
  have "f32 x - x = (of_int (rne (x / ulp x)) - x / ulp x) * ulp x"
    using ulp_pos [of x] by (simp add: f32_def field_simps)
  then have "\<bar>f32 x - x\<bar> = \<bar>of_int (rne (x / ulp x)) - x / ulp x\<bar> * ulp x"
    using ulp_pos [of x] by (simp add: abs_mult)
  also have "\<dots> \<le> 1/2 * ulp x"
    using rne_error [of "x / ulp x"] ulp_pos [of x] by (intro mult_right_mono) simp_all
  finally show ?thesis by simp
qed

lemma f32_representable_less:
  assumes "\<bar>k\<bar> < 2 ^ 24"
  shows "f32 (of_int k * 2 ^ e * tiny) = of_int k * 2 ^ e * tiny"
proof -
  define x where "x = of_int k * 2 ^ e * tiny"
  from assms have "(of_int \<bar>k\<bar> :: real) < of_int (2 ^ 24)" by (simp only: of_int_less_iff)
  then have "of_int \<bar>k\<bar> * (2 ^ e * tiny) < of_int (2 ^ 24) * (2 ^ e * tiny)"
    using tiny_pos by (intro mult_strict_right_mono) simp_all
  also have "of_int \<bar>k\<bar> * (2 ^ e * tiny) = \<bar>x\<bar>"
    using tiny_pos by (simp add: x_def abs_mult)
  also have "of_int (2 ^ 24) * (2 ^ e * tiny) = 2 ^ (e + 24) * tiny"
    by (simp add: power_add)
  finally have "expo x \<le> e" by (simp only: expo_le_iff)
  then obtain d where e: "e = expo x + d" using le_Suc_ex by blast
  have pw: "(2::real) ^ e = 2 ^ d * 2 ^ expo x"
    by (subst e) (simp add: power_add)
  have "x = of_int k * 2 ^ e * tiny" by (rule x_def)
  also have "\<dots> = of_int k * (2 ^ d * 2 ^ expo x) * tiny" by (simp only: pw)
  also have "\<dots> = of_int (k * 2 ^ d) * ulp x" by (simp add: ulp_def mult.assoc)
  finally have x: "of_int (k * 2 ^ d) * ulp x = x" by (rule sym)
  have "x / ulp x = of_int (k * 2 ^ d) * ulp x / ulp x" by (simp only: x)
  also have "\<dots> = of_int (k * 2 ^ d)" using ulp_pos [of x] by simp
  finally have "x / ulp x = of_int (k * 2 ^ d)" .
  then have "rne (x / ulp x) = k * 2 ^ d" by (simp only: rne_of_int)
  then have "f32 x = of_int (k * 2 ^ d) * ulp x" by (simp only: f32_def)
  then have "f32 x = x" by (simp only: x)
  then show ?thesis unfolding x_def .
qed

lemma f32_representable:
  assumes "\<bar>k\<bar> \<le> 2 ^ 24"
  shows "f32 (of_int k * 2 ^ e * tiny) = of_int k * 2 ^ e * tiny"
proof (cases "\<bar>k\<bar> < 2 ^ 24")
  case True
  then show ?thesis by (rule f32_representable_less)
next
  case False
  with assms have "\<bar>k\<bar> = 2 ^ 24" by simp
  then consider "k = 2 ^ 24" | "k = - (2 ^ 24)" by (auto simp: abs_if split: if_splits)
  then show ?thesis
  proof cases
    case 1
    have "\<bar>2 ^ 23 :: int\<bar> < 2 ^ 24" by simp
    from f32_representable_less [OF this, of "Suc e"] 1 show ?thesis by simp
  next
    case 2
    have "\<bar>- (2 ^ 23) :: int\<bar> < 2 ^ 24" by simp
    from f32_representable_less [OF this, of "Suc e"] 2 show ?thesis by simp
  qed
qed

lemma f32_form: "\<exists>k. \<bar>k\<bar> \<le> 2 ^ 24 \<and> f32 x = of_int k * 2 ^ expo x * tiny"
proof -
  have "\<bar>x / ulp x\<bar> \<le> of_int (2 ^ 24)"
    using expo_upper [of x] tiny_pos
    by (simp add: ulp_def power_add pos_divide_le_eq mult.assoc mult.left_commute)
  from rne_abs_le [OF this] have "\<bar>rne (x / ulp x)\<bar> \<le> 2 ^ 24" .
  moreover have "f32 x = of_int (rne (x / ulp x)) * 2 ^ expo x * tiny"
    by (simp add: f32_def ulp_def)
  ultimately show ?thesis by blast
qed

lemma f32_idem [simp]: "f32 (f32 x) = f32 x"
proof -
  from f32_form [of x] obtain k where
    k: "\<bar>k\<bar> \<le> 2 ^ 24" and x: "f32 x = of_int k * 2 ^ expo x * tiny" by blast
  from f32_representable [OF k, of "expo x"] show ?thesis unfolding x .
qed

lemma f32_multiple: "\<exists>m. f32 x = of_int m * tiny"
proof -
  from f32_form [of x] obtain k where "f32 x = of_int k * 2 ^ expo x * tiny" by blast
  then have "f32 x = of_int (k * 2 ^ expo x) * tiny" by simp
  then show ?thesis ..
qed

lemma f32_grid:
  assumes "f32 x = x" and "2 ^ (e + 23) * tiny \<le> \<bar>x\<bar>" and "\<bar>x\<bar> < 2 ^ (e + 24) * tiny"
  shows "\<exists>k. x = of_int k * (2 ^ e * tiny)"
proof -
  from assms(3) have "expo x \<le> e" by (simp only: expo_le_iff)
  moreover have "\<not> expo x < e"
  proof
    assume "expo x < e"
    then have "expo x + 24 \<le> e + 23" by simp
    then have "(2::real) ^ (expo x + 24) \<le> 2 ^ (e + 23)" by (intro power_increasing) simp_all
    then have "2 ^ (expo x + 24) * tiny \<le> 2 ^ (e + 23) * tiny"
      using tiny_pos by (intro mult_right_mono) simp_all
    with expo_upper [of x] assms(2) show False by linarith
  qed
  ultimately have "expo x = e" by simp
  then have "f32 x = of_int (rne (x / ulp x)) * (2 ^ e * tiny)" by (simp add: f32_def ulp_def)
  with assms(1) show ?thesis by metis
qed

text \<open>Evaluating \<open>f32\<close> at a number, and the values of the literals of the program.\<close>

lemmas f32_eval = f32_def ulp_def expo_def tiny_def rne_def Let_def bits.simps

lemma f32_values:
  "f32 (1/100) = 5368709/536870912" "f32 (3/20) = 5033165/33554432"
  "f32 (1/25) = 5368709/134217728" "f32 (3/50) = 16106127/268435456"
  by (simp_all add: f32_eval)

subsection \<open>AABB overlap\<close>

lemma open_intervals_meet:
  fixes a b c d :: real
  shows "(\<exists>x. a < x \<and> x < b \<and> c < x \<and> x < d) \<longleftrightarrow> a < b \<and> c < d \<and> a < d \<and> c < b"
proof
  assume "\<exists>x. a < x \<and> x < b \<and> c < x \<and> x < d"
  then show "a < b \<and> c < d \<and> a < d \<and> c < b" by auto
next
  assume h: "a < b \<and> c < d \<and> a < d \<and> c < b"
  define m where "m = max a c"
  define M where "M = min b d"
  from h have mM: "m < M" by (auto simp: m_def M_def)
  have lo: "m < (m + M) / 2" using mM by (simp add: field_simps)
  have hi: "(m + M) / 2 < M" using mM by (simp add: field_simps)
  have "a \<le> m" "c \<le> m" "M \<le> b" "M \<le> d" by (simp_all add: m_def M_def)
  with lo hi have "a < (m + M) / 2 \<and> (m + M) / 2 < b \<and> c < (m + M) / 2 \<and> (m + M) / 2 < d"
    by linarith
  then show "\<exists>x. a < x \<and> x < b \<and> c < x \<and> x < d" by blast
qed

text \<open>
  C6. \<open>collision a b\<close> holds exactly when the projections of the two boxes intersect
  strictly on both axes, that is when all four strict comparisons hold. A box that merely
  touches the other along an edge (\<open>a.max.x = b.min.x\<close>, and likewise for the other three
  edges) does not collide, and two boxes of positive extent collide exactly when some
  point lies strictly inside both.
\<close>

theorem collision_strict:
  "(collision a b \<longleftrightarrow>
      vx (aabb_min a) < vx (aabb_max b) \<and> vx (aabb_min b) < vx (aabb_max a) \<and>
      vy (aabb_min a) < vy (aabb_max b) \<and> vy (aabb_min b) < vy (aabb_max a)) \<and>
   (vx (aabb_max a) = vx (aabb_min b) \<longrightarrow> \<not> collision a b) \<and>
   (vx (aabb_min a) = vx (aabb_max b) \<longrightarrow> \<not> collision a b) \<and>
   (vy (aabb_max a) = vy (aabb_min b) \<longrightarrow> \<not> collision a b) \<and>
   (vy (aabb_min a) = vy (aabb_max b) \<longrightarrow> \<not> collision a b) \<and>
   (vx (aabb_min a) < vx (aabb_max a) \<and> vy (aabb_min a) < vy (aabb_max a) \<and>
    vx (aabb_min b) < vx (aabb_max b) \<and> vy (aabb_min b) < vy (aabb_max b) \<longrightarrow>
      (collision a b \<longleftrightarrow> (\<exists>p. strictly_inside a p \<and> strictly_inside b p)))"
proof -
  have edges: "(vx (aabb_max a) = vx (aabb_min b) \<longrightarrow> \<not> collision a b) \<and>
   (vx (aabb_min a) = vx (aabb_max b) \<longrightarrow> \<not> collision a b) \<and>
   (vy (aabb_max a) = vy (aabb_min b) \<longrightarrow> \<not> collision a b) \<and>
   (vy (aabb_min a) = vy (aabb_max b) \<longrightarrow> \<not> collision a b)"
    by (auto simp: collision_def)
  have inner: "collision a b \<longleftrightarrow> (\<exists>p. strictly_inside a p \<and> strictly_inside b p)"
    if pos: "vx (aabb_min a) < vx (aabb_max a) \<and> vy (aabb_min a) < vy (aabb_max a) \<and>
             vx (aabb_min b) < vx (aabb_max b) \<and> vy (aabb_min b) < vy (aabb_max b)"
  proof
    assume c: "collision a b"
    from c pos obtain x where x: "vx (aabb_min a) < x \<and> x < vx (aabb_max a) \<and>
        vx (aabb_min b) < x \<and> x < vx (aabb_max b)"
      using open_intervals_meet [of "vx (aabb_min a)" "vx (aabb_max a)" "vx (aabb_min b)" "vx (aabb_max b)"]
      by (auto simp: collision_def)
    from c pos obtain y where y: "vy (aabb_min a) < y \<and> y < vy (aabb_max a) \<and>
        vy (aabb_min b) < y \<and> y < vy (aabb_max b)"
      using open_intervals_meet [of "vy (aabb_min a)" "vy (aabb_max a)" "vy (aabb_min b)" "vy (aabb_max b)"]
      by (auto simp: collision_def)
    from x y have "strictly_inside a (Vec2 x y) \<and> strictly_inside b (Vec2 x y)"
      by (simp add: strictly_inside_def)
    then show "\<exists>p. strictly_inside a p \<and> strictly_inside b p" by blast
  next
    assume "\<exists>p. strictly_inside a p \<and> strictly_inside b p"
    then show "collision a b"
      by (auto simp: strictly_inside_def collision_def)
  qed
  have four: "collision a b \<longleftrightarrow>
      vx (aabb_min a) < vx (aabb_max b) \<and> vx (aabb_min b) < vx (aabb_max a) \<and>
      vy (aabb_min a) < vy (aabb_max b) \<and> vy (aabb_min b) < vy (aabb_max a)"
    by (auto simp: collision_def)
  from four edges inner show ?thesis by blast
qed

theorem collision_strict_witness:
  "\<not> collision \<lparr>aabb_min = Vec2 0 0, aabb_max = Vec2 1 1\<rparr>
                \<lparr>aabb_min = Vec2 1 0, aabb_max = Vec2 2 1\<rparr> \<and>
   \<not> collision \<lparr>aabb_min = Vec2 1 0, aabb_max = Vec2 2 1\<rparr>
                \<lparr>aabb_min = Vec2 0 0, aabb_max = Vec2 1 1\<rparr> \<and>
   \<not> collision \<lparr>aabb_min = Vec2 0 0, aabb_max = Vec2 1 1\<rparr>
                \<lparr>aabb_min = Vec2 0 1, aabb_max = Vec2 1 2\<rparr> \<and>
   \<not> collision \<lparr>aabb_min = Vec2 0 1, aabb_max = Vec2 1 2\<rparr>
                \<lparr>aabb_min = Vec2 0 0, aabb_max = Vec2 1 1\<rparr> \<and>
   collision \<lparr>aabb_min = Vec2 0 0, aabb_max = Vec2 2 2\<rparr>
             \<lparr>aabb_min = Vec2 1 1, aabb_max = Vec2 3 3\<rparr>"
proof -
  let ?A = "\<lparr>aabb_min = Vec2 0 0, aabb_max = Vec2 1 1\<rparr>"
  let ?B = "\<lparr>aabb_min = Vec2 1 0, aabb_max = Vec2 2 1\<rparr>"
  let ?C = "\<lparr>aabb_min = Vec2 0 1, aabb_max = Vec2 1 2\<rparr>"
  let ?D = "\<lparr>aabb_min = Vec2 0 0, aabb_max = Vec2 2 2\<rparr>"
  let ?E = "\<lparr>aabb_min = Vec2 1 1, aabb_max = Vec2 3 3\<rparr>"
  have e1: "vx (aabb_max ?A) = vx (aabb_min ?B)" by simp
  have e2: "vx (aabb_min ?B) = vx (aabb_max ?A)" by simp
  have e3: "vy (aabb_max ?A) = vy (aabb_min ?C)" by simp
  have e4: "vy (aabb_min ?C) = vy (aabb_max ?A)" by simp
  have pos: "vx (aabb_min ?D) < vx (aabb_max ?D) \<and> vy (aabb_min ?D) < vy (aabb_max ?D) \<and>
             vx (aabb_min ?E) < vx (aabb_max ?E) \<and> vy (aabb_min ?E) < vy (aabb_max ?E)"
    by simp
  have "strictly_inside ?D (Vec2 (3/2) (3/2)) \<and> strictly_inside ?E (Vec2 (3/2) (3/2))"
    by (simp add: strictly_inside_def)
  then have ex: "\<exists>p. strictly_inside ?D p \<and> strictly_inside ?E p" by blast
  from collision_strict [of ?A ?B] e1 have 1: "\<not> collision ?A ?B" by blast
  from collision_strict [of ?B ?A] e2 have 2: "\<not> collision ?B ?A" by blast
  from collision_strict [of ?A ?C] e3 have 3: "\<not> collision ?A ?C" by blast
  from collision_strict [of ?C ?A] e4 have 4: "\<not> collision ?C ?A" by blast
  from collision_strict [of ?D ?E] pos ex have 5: "collision ?D ?E" by blast
  from 1 2 3 4 5 show ?thesis by blast
qed


text \<open>Bundles of definitions, for evaluating a tick on a scene.\<close>

lemmas scene_defs =
  scenario_def init_game_def set_layer_def init_background_def init_player_def init_enemy_def
  projectile_at_def default_object_def run_update_fn_def ship_frames_def kAspectRatio_def
  default_transform_def sentinel_transform_def explosion_frames_def f32_values

lemmas box_defs =
  object_box_def world_aabb_def transform_aabb_def matrix_def mat_apply_def
  radians_def vec2_min_def vec2_max_def vec2_add_def vec2_scale_def collision_def

lemmas pre_collision_defs =
  pre_collision_def timed_action_system_def erasing_system_def all_lists_def
  cursor_picking_system_def update_all_objects_def update_object_def motion_system_def
  sprite_animation_system_def custom_update_system_def offscreen_destroy_system_def
  screen_bound_system_def update_frame_def expired_def normalized_def aspect_ratio_def
  Let_def

lemmas collision_system_defs =
  game_update_def projectile_collision_system_def projectile_hit_def spawn_explosion_def
  create_explosion_def play_def retire_projectile_def damage_spaceship_def
  player_collision_system_def player_hit_def game_pause_def

subsection \<open>Sprite animation\<close>

lemma err_bind_simps [simp]:
  "err_bind (Inl e) f = Inl e"
  "err_bind (Inr x) f = f x"
  by (simp_all add: err_bind_def)

lemma update_frame_exact:
  assumes "curr_frame_idx a < length (frames a)" and "unrounded a (dt # dts)"
  shows "update_frame a dt =
           Inr (if last_transit_dt a + dt \<ge> duration (frames a ! curr_frame_idx a)
                then a\<lparr>last_transit_dt := last_transit_dt a + dt - duration (frames a ! curr_frame_idx a),
                       curr_frame_idx := next_frame_idx a,
                       curr_cycle_count :=
                         (if curr_frame_idx a + 1 = length (frames a)
                          then (curr_cycle_count a + 1) mod 2 ^ 64 else curr_cycle_count a)\<rparr>
                else a\<lparr>last_transit_dt := last_transit_dt a + dt\<rparr>)"
  using assms by (auto simp: update_frame_def Let_def float32_def next_frame_idx_def)

lemma unrounded_rest:
  assumes "unrounded a (dt # dts)" and "update_frame a dt = Inr a'"
  shows "unrounded a' dts"
  using assms by (simp add: Let_def)

lemma update_frames_no_transition:
  "curr_frame_idx a < length (frames a) \<Longrightarrow> \<forall>dt\<in>set dts. 0 \<le> dt \<Longrightarrow> unrounded a dts \<Longrightarrow>
   last_transit_dt a + sum_list dts < duration (frames a ! curr_frame_idx a) \<Longrightarrow>
   update_frames a dts = Inr (a\<lparr>last_transit_dt := last_transit_dt a + sum_list dts\<rparr>) \<and>
   (dts \<noteq> [] \<longrightarrow> f32 (last_transit_dt a + sum_list dts) = last_transit_dt a + sum_list dts)"
proof (induction dts arbitrary: a)
  case Nil
  then show ?case by simp
next
  case (Cons dt dts)
  have nn: "0 \<le> sum_list dts" using Cons.prems(2) by (simp add: sum_list_nonneg)
  have dt0: "0 \<le> dt" using Cons.prems(2) by simp
  let ?a1 = "a\<lparr>last_transit_dt := last_transit_dt a + dt\<rparr>"
  have step: "update_frame a dt = Inr ?a1"
    using update_frame_exact [OF Cons.prems(1,3)] Cons.prems(4) nn by simp
  have ex: "f32 (last_transit_dt a + dt) = last_transit_dt a + dt"
    using Cons.prems(3) by (simp add: Let_def float32_def)
  have u1: "unrounded ?a1 dts" by (rule unrounded_rest [OF Cons.prems(3) step])
  have "update_frames ?a1 dts = Inr (?a1\<lparr>last_transit_dt := last_transit_dt ?a1 + sum_list dts\<rparr>) \<and>
   (dts \<noteq> [] \<longrightarrow> f32 (last_transit_dt ?a1 + sum_list dts) = last_transit_dt ?a1 + sum_list dts)"
    using Cons.prems(1,2,4) u1 by (intro Cons.IH) (simp_all add: add.assoc)
  with step ex show ?case by (cases "dts = []") (simp_all add: add.assoc)
qed

lemma update_frames_transition:
  "curr_frame_idx a < length (frames a) \<Longrightarrow> \<forall>dt\<in>set dts. 0 \<le> dt \<Longrightarrow> unrounded a dts \<Longrightarrow>
   dts \<noteq> [] \<Longrightarrow>
   duration (frames a ! curr_frame_idx a) \<le> last_transit_dt a + sum_list dts \<Longrightarrow>
   last_transit_dt a + sum_list dts
     < duration (frames a ! curr_frame_idx a) + duration (frames a ! next_frame_idx a) \<Longrightarrow>
   \<exists>a1. update_frames a dts = Inr a1 \<and> curr_frame_idx a1 = next_frame_idx a \<and>
        curr_cycle_count a1 =
          (if curr_frame_idx a + 1 = length (frames a)
           then (curr_cycle_count a + 1) mod 2 ^ 64 else curr_cycle_count a)"
proof (induction dts arbitrary: a)
  case Nil
  then show ?case by simp
next
  case (Cons dt dts)
  let ?d = "duration (frames a ! curr_frame_idx a)"
  note step = update_frame_exact [OF Cons.prems(1,3)]
  show ?case
  proof (cases "last_transit_dt a + dt \<ge> ?d")
    case True
    let ?a1 = "a\<lparr>last_transit_dt := last_transit_dt a + dt - ?d,
                  curr_frame_idx := next_frame_idx a,
                  curr_cycle_count :=
                    (if curr_frame_idx a + 1 = length (frames a)
                     then (curr_cycle_count a + 1) mod 2 ^ 64 else curr_cycle_count a)\<rparr>"
    from step True have s: "update_frame a dt = Inr ?a1" by simp
    have idx1: "curr_frame_idx ?a1 < length (frames ?a1)"
      using Cons.prems(1) by (auto simp: next_frame_idx_def)
    have u1: "unrounded ?a1 dts" by (rule unrounded_rest [OF Cons.prems(3) s])
    have "update_frames ?a1 dts =
        Inr (?a1\<lparr>last_transit_dt := last_transit_dt ?a1 + sum_list dts\<rparr>)"
      using update_frames_no_transition [OF idx1 _ u1] Cons.prems(2,6) by simp
    with s show ?thesis by simp
  next
    case False
    let ?a1 = "a\<lparr>last_transit_dt := last_transit_dt a + dt\<rparr>"
    from step False have s: "update_frame a dt = Inr ?a1" by simp
    have u1: "unrounded ?a1 dts" by (rule unrounded_rest [OF Cons.prems(3) s])
    from False Cons.prems(5) have ne: "dts \<noteq> []" by auto
    have "\<exists>a2. update_frames ?a1 dts = Inr a2 \<and> curr_frame_idx a2 = next_frame_idx ?a1 \<and>
        curr_cycle_count a2 =
          (if curr_frame_idx ?a1 + 1 = length (frames ?a1)
           then (curr_cycle_count ?a1 + 1) mod 2 ^ 64 else curr_cycle_count ?a1)"
      using Cons.prems(1,2,5,6) u1 ne
      by (intro Cons.IH) (auto simp: add.assoc next_frame_idx_def split: if_splits)
    with s show ?thesis by (auto simp: next_frame_idx_def)
  qed
qed




subsection \<open>Timed actions\<close>

text \<open>
  C3 (as amended). From a zeroed accumulator, an update by exactly the duration \<open>D\<close>
  invokes the action once and leaves the accumulator at 0. An update by \<open>2 * D\<close> (for
  \<open>D \<ge> 0\<close>) also invokes the action once, not twice, and leaves \<open>D\<close> in the
  accumulator; the second invocation happens at the next update, whatever non-negative
  step it advances by.
\<close>

theorem TimedAction_update_fires:
  "TimedAction_update count_invocation (ta\<lparr>tick_dt := 0\<rparr>) n (ta_duration ta) time =
     Inr (ta\<lparr>tick_dt := 0\<rparr>, Suc n) \<and>
   (0 \<le> ta_duration ta \<longrightarrow>
      TimedAction_update count_invocation (ta\<lparr>tick_dt := 0\<rparr>) n (2 * ta_duration ta) time =
        Inr (ta\<lparr>tick_dt := ta_duration ta\<rparr>, Suc n)) \<and>
   (0 \<le> dt \<longrightarrow>
      TimedAction_update count_invocation (ta\<lparr>tick_dt := ta_duration ta\<rparr>) (Suc n) dt time' =
        Inr (ta\<lparr>tick_dt := dt\<rparr>, Suc (Suc n)))"
  by (simp add: TimedAction_update_def count_invocation_def)

theorem TimedAction_update_fires_witness:
  "TimedAction_update count_invocation
     \<lparr>tick_dt = 0, ta_duration = 3/20, action = spawn_projectile_action\<rparr> 0 (2 * (3/20)) 0 =
     Inr (\<lparr>tick_dt = 3/20, ta_duration = 3/20, action = spawn_projectile_action\<rparr>, Suc 0) \<and>
   TimedAction_update count_invocation
     \<lparr>tick_dt = 3/20, ta_duration = 3/20, action = spawn_projectile_action\<rparr> (Suc 0) (1/100) 0 =
     Inr (\<lparr>tick_dt = 1/100, ta_duration = 3/20, action = spawn_projectile_action\<rparr>, Suc (Suc 0))"
proof -
  let ?ta = "\<lparr>tick_dt = 0, ta_duration = 3/20, action = spawn_projectile_action\<rparr>"
  have d: "0 \<le> ta_duration ?ta" by simp
  have s: "(0::real) \<le> 1/100" by simp
  from TimedAction_update_fires [of ?ta 0 0 "1/100" 0] d s
  have "TimedAction_update count_invocation (?ta\<lparr>tick_dt := 0\<rparr>) 0 (2 * ta_duration ?ta) 0 =
          Inr (?ta\<lparr>tick_dt := ta_duration ?ta\<rparr>, Suc 0) \<and>
        TimedAction_update count_invocation (?ta\<lparr>tick_dt := ta_duration ?ta\<rparr>) (Suc 0) (1/100) 0 =
          Inr (?ta\<lparr>tick_dt := 1/100\<rparr>, Suc (Suc 0))"
    by blast
  then show ?thesis by simp
qed

text \<open>
  C3 as stated fails: with duration 1, a single update by 2 invokes the action once (the
  counter goes from 0 to 1, not to 2) and leaves 1 in the accumulator.
\<close>

theorem TimedAction_update_counterexample:
  "TimedAction_update count_invocation
     \<lparr>tick_dt = 0, ta_duration = 1, action = default_action\<rparr> 0 2 0 =
   Inr (\<lparr>tick_dt = 1, ta_duration = 1, action = default_action\<rparr>, 1)"
  by (simp add: TimedAction_update_def count_invocation_def)

subsection \<open>Resource cache\<close>

text \<open>
  C5. Start from a cache that does not hold the key. If the loader succeeds, two
  \<^verbatim>\<open>get_or_load\<close> calls with that key return the same handle, the handle refers to the
  resource the loader produced, the loader has run exactly once, and the second call leaves
  cache and world as the first one left them. If the loader fails, the call returns nothing
  and the cache is unchanged; the same holds for \<^verbatim>\<open>load\<close> of the second generation.
\<close>

theorem get_or_load_twice_same:
  "(cache_map c path = None \<and> loader path w = (Some res, w') \<longrightarrow>
      (\<exists>h c'. get_or_load_twice (counting loader) c path (w, 0) = (Some h, Some h, c', (w', 1)) \<and>
         get_or_load (counting loader) c path (w, 0) = (Some h, c', (w', 1)) \<and>
         cache_map c' path = Some h \<and> h < length (store c') \<and> store c' ! h = res)) \<and>
   (cache_map c path = None \<and> loader path w = (None, w') \<longrightarrow>
      get_or_load (counting loader) c path (w, 0) = (None, c, (w', 1))) \<and>
   (loader path w = (None, w') \<longrightarrow>
      cache_load (counting loader) c path (w, 0) = (None, c, (w', 1)))"
  by (auto simp: get_or_load_twice_def get_or_load_def cache_load_def counting_def Let_def)


theorem get_or_load_twice_same_witness:
  "(\<exists>h c'. get_or_load_twice (counting (\<lambda>p w. (Some (7::nat), w)))
              \<lparr>cache_map = Map.empty, store = []\<rparr> ''Explosion.png'' ((), 0) =
            (Some h, Some h, c', ((), 1)) \<and> store c' ! h = 7) \<and>
   get_or_load (counting (\<lambda>p w. (None :: nat option, w)))
     \<lparr>cache_map = Map.empty, store = []\<rparr> ''Missing.png'' ((), 0) =
     (None, \<lparr>cache_map = Map.empty, store = []\<rparr>, ((), 1)) \<and>
   cache_load (counting (\<lambda>p w. (None :: nat option, w)))
     \<lparr>cache_map = Map.empty, store = []\<rparr> ''Missing.png'' ((), 0) =
     (None, \<lparr>cache_map = Map.empty, store = []\<rparr>, ((), 1))"
proof -
  let ?c = "\<lparr>cache_map = Map.empty, store = [] :: nat list\<rparr>"
  let ?ok = "\<lambda>(p::string) (w::unit). (Some (7::nat), w)"
  let ?ko = "\<lambda>(p::string) (w::unit). (None :: nat option, w)"
  have miss: "cache_map ?c ''Explosion.png'' = None" "cache_map ?c ''Missing.png'' = None"
    by simp_all
  have ok: "?ok ''Explosion.png'' () = (Some 7, ())" by simp
  have ko: "?ko ''Missing.png'' () = (None, ())" by simp
  from get_or_load_twice_same [of ?c "''Explosion.png''" ?ok "()" 7 "()"] miss(1) ok
  have 1: "\<exists>h c'. get_or_load_twice (counting ?ok) ?c ''Explosion.png'' ((), 0) =
              (Some h, Some h, c', ((), 1)) \<and> store c' ! h = 7"
    by blast
  from get_or_load_twice_same [of ?c "''Missing.png''" ?ko "()" _ "()"] miss(2) ko
  have 2: "get_or_load (counting ?ko) ?c ''Missing.png'' ((), 0) = (None, ?c, ((), 1))"
    and 3: "cache_load (counting ?ko) ?c ''Missing.png'' ((), 0) = (None, ?c, ((), 1))"
    by blast+
  from 1 2 3 show ?thesis by blast
qed

subsection \<open>Rendering stops at the first object without render handle\<close>

text \<open>
  C10. Let the layer \<open>l\<close>, read from its last object to its first, be \<open>pre @ x # post\<close>
  where \<open>x\<close> has no render handle. Then the loop of \<^verbatim>\<open>game_render\<close> over this layer does
  what it does on \<open>pre\<close> alone: it issues at most one draw call per object of \<open>pre\<close>, and
  neither \<open>x\<close> nor any object of \<open>post\<close> is drawn, whether or not it has a render handle.
\<close>

theorem render_loop_stops:
  assumes "rev (objects g l) = pre @ x # post" and "glo x = None"
  shows "render_loop (rev (objects g l)) alpha = render_loop pre alpha \<and>
         render_loop (pre @ x # post') alpha = render_loop pre alpha \<and>
         (\<forall>ds. render_loop pre alpha = Inr ds \<longrightarrow> length ds \<le> length pre)"
proof -
  have cut: "render_loop (pre @ x # ys) alpha = render_loop pre alpha" for ys
    using assms(2) by (induction pre) (simp_all split: option.splits)
  have len: "render_loop zs alpha = Inr ds \<Longrightarrow> length ds \<le> length zs" for zs :: "'a GameObject list" and ds
  proof (induction zs arbitrary: ds)
    case Nil
    then show ?case by simp
  next
    case (Cons z zs)
    show ?case
    proof (cases "glo z")
      case None
      with Cons.prems show ?thesis by simp
    next
      case (Some name)
      with Cons.prems obtain d ds' where "render_loop zs alpha = Inr ds'" "ds = d # ds'"
        by (auto simp: err_bind_def split: sum.splits)
      with Cons.IH show ?thesis by fastforce
    qed
  qed
  from cut [of post] cut [of post'] len assms(1) show ?thesis by simp
qed

theorem render_loop_stops_witness:
  "render_loop
     (rev [default_object\<lparr>tag := ''player''\<rparr>,
           default_object\<lparr>tag := ''enemy'', glo := Some 7\<rparr>,
           (default_object :: unit GameObject)\<lparr>tag := ''ufo'', glo := Some 8\<rparr>]) (1/2) =
   Inr [Draw_colored 8 default_transform, Draw_colored 7 default_transform] \<and>
   render_loop
     (rev [default_object\<lparr>tag := ''enemy'', glo := Some 7\<rparr>,
           default_object\<lparr>tag := ''player''\<rparr>,
           (default_object :: unit GameObject)\<lparr>tag := ''ufo'', glo := Some 8\<rparr>]) (1/2) =
   Inr [Draw_colored 8 default_transform]"
proof -
  let ?p = "(default_object :: unit GameObject)\<lparr>tag := ''player''\<rparr>"
  let ?e = "(default_object :: unit GameObject)\<lparr>tag := ''enemy'', glo := Some 7\<rparr>"
  let ?u = "(default_object :: unit GameObject)\<lparr>tag := ''ufo'', glo := Some 8\<rparr>"
  let ?g1 = "\<lparr>paused = False, vsync = True, hover = False, cursor = Vec2 0 0,
     window_size = (1280, 720), viewport_offset = (0, 0), viewport_size = (1280, 720),
     objects = (\<lambda>l. if l = Spaceship then [?p, ?e, ?u] else []),
     audios = Map.empty, textures = Map.empty, key_handlers = init_key_handlers,
     key_states = [], timed_actions = [],
     screen_aabb = \<lparr>aabb_min = Vec2 (- kAspectRatio) (- 1), aabb_max = Vec2 kAspectRatio 1\<rparr>,
     debug_info = False, aabbs = False, playing = [], next_name = 9\<rparr>"
  let ?g2 = "?g1\<lparr>objects := (\<lambda>l. if l = Spaceship then [?e, ?p, ?u] else [])\<rparr>"
  have n: "glo ?p = None" by (simp add: default_object_def)
  have r1: "rev (objects ?g1 Spaceship) = [?u, ?e] @ ?p # []" by simp
  have r2: "rev (objects ?g2 Spaceship) = [?u] @ ?p # [?e]" by simp
  have i: "interpolate (default_object :: unit GameObject) (1/2) = default_transform"
    by (simp add: interpolate_def default_object_def default_transform_def lerp2_def lerp_def)
  have d1: "render_loop [?u, ?e] (1/2) =
      Inr [Draw_colored 8 default_transform, Draw_colored 7 default_transform]"
    using i by (simp add: draw_object_def default_object_def interpolate_def)
  have d2: "render_loop [?u] (1/2) = Inr [Draw_colored 8 default_transform]"
    using i by (simp add: draw_object_def default_object_def interpolate_def)
  from render_loop_stops [OF r1 n, of "1/2"] d1
  have 1: "render_loop (rev [?p, ?e, ?u]) (1/2) =
      Inr [Draw_colored 8 default_transform, Draw_colored 7 default_transform]"
    by simp
  from render_loop_stops [OF r2 n, of "1/2"] d2
  have 2: "render_loop (rev [?e, ?p, ?u]) (1/2) = Inr [Draw_colored 8 default_transform]"
    by simp
  from 1 2 show ?thesis by blast
qed

subsection \<open>The interpolation factor\<close>

lemma timestep_value: "timestep = 5368709 / 536870912"
  by (simp add: timestep_def f32_eval)

lemma catch_up_bounds_aux:
  assumes "catch_up tick lag epoch g = Some r"
  shows "0 \<le> lag \<longrightarrow> f32 lag = lag \<longrightarrow>
     (\<forall>lag' epoch' g'. r = Inr (lag', epoch', g') \<longrightarrow>
        0 \<le> lag' \<and> lag' < timestep \<and> f32 lag' = lag')"
proof (rule catch_up.raw_induct
    [where P = "\<lambda>tick lag epoch g r. 0 \<le> lag \<longrightarrow> f32 lag = lag \<longrightarrow>
     (\<forall>lag' epoch' g'. r = Inr (lag', epoch', g') \<longrightarrow>
        0 \<le> lag' \<and> lag' < timestep \<and> f32 lag' = lag')", OF _ assms])
  fix catch_up' :: "('g \<Rightarrow> real \<Rightarrow> real \<Rightarrow> error + 'g) \<Rightarrow> real \<Rightarrow> real \<Rightarrow> 'g \<Rightarrow> (error + real \<times> real \<times> 'g) option"
    and tick lag epoch g r
  assume IH: "\<And>tick lag epoch g r. catch_up' tick lag epoch g = Some r \<Longrightarrow>
      0 \<le> lag \<longrightarrow> f32 lag = lag \<longrightarrow>
     (\<forall>lag' epoch' g'. r = Inr (lag', epoch', g') \<longrightarrow>
        0 \<le> lag' \<and> lag' < timestep \<and> f32 lag' = lag')"
    and body: "(if timestep \<le> lag
         then case tick g timestep epoch of Inl e \<Rightarrow> Some (Inl e)
              | Inr g' \<Rightarrow> catch_up' tick (f32 (lag - timestep)) (f32 (epoch + timestep)) g'
         else Some (Inr (lag, epoch, g))) = Some r"
  show "0 \<le> lag \<longrightarrow> f32 lag = lag \<longrightarrow>
     (\<forall>lag' epoch' g'. r = Inr (lag', epoch', g') \<longrightarrow>
        0 \<le> lag' \<and> lag' < timestep \<and> f32 lag' = lag')"
  proof (cases "lag \<ge> timestep")
    case False
    with body show ?thesis by auto
  next
    case True
    show ?thesis
    proof (cases "tick g timestep epoch")
      case (Inl e)
      with True body show ?thesis by auto
    next
      case (Inr g1)
      with True body have c: "catch_up' tick (f32 (lag - timestep)) (f32 (epoch + timestep)) g1 = Some r"
        by simp
      from True have "0 \<le> f32 (lag - timestep)" by (intro f32_nonneg) simp
      with IH [OF c] show ?thesis by simp
    qed
  qed
qed

lemma catch_up_bounds:
  assumes "catch_up tick lag epoch g = Some (Inr (lag', epoch', g'))" and "0 \<le> lag"
    and "f32 lag = lag"
  shows "0 \<le> lag' \<and> lag' < timestep \<and> f32 lag' = lag'"
  using catch_up_bounds_aux [OF assms(1)] assms(2,3) by blast

lemma alpha_range:
  assumes "0 \<le> lag" and "lag < timestep" and "f32 lag = lag"
  shows "0 \<le> f32 (lag / timestep) \<and> f32 (lag / timestep) < 1"
proof
  from assms(1) show "0 \<le> f32 (lag / timestep)"
    by (intro f32_nonneg) (simp add: timestep_value)
  have le: "lag \<le> 10737417 / 1073741824"
  proof (cases "lag < 1 / 128")
    case True
    then show ?thesis by simp
  next
    case False
    with assms(2) have "2 ^ (119 + 23) * tiny \<le> \<bar>lag\<bar>" "\<bar>lag\<bar> < 2 ^ (119 + 24) * tiny"
      by (simp_all add: tiny_def timestep_value)
    from f32_grid [OF assms(3) this] obtain k where k: "lag = of_int k * (2 ^ 119 * tiny)" by blast
    then have k': "lag = of_int k / 1073741824" by (simp add: tiny_def)
    with assms(2) have "of_int k < (10737418 :: real)" by (simp add: timestep_value)
    then have "k < 10737418" by linarith
    then have "k \<le> 10737417" by simp
    then have "(of_int k :: real) \<le> 10737417" by linarith
    with k' show ?thesis by simp
  qed
  then have "lag / timestep \<le> 1 - 1 / 2 ^ 24" by (simp add: timestep_value field_simps)
  from f32_mono [OF this] have "f32 (lag / timestep) \<le> f32 (1 - 1 / 2 ^ 24)" .
  also have "f32 (1 - 1 / 2 ^ 24) = 1 - 1 / 2 ^ 24" by (simp add: f32_eval)
  finally show "f32 (lag / timestep) < 1" by simp
qed


lemma loop_iteration_bounds:
  assumes "0 \<le> update_lag st" and "last_time st \<le> f32 now"
    and "loop_iteration tick vsync_of refresh_rate now st = Some (Inr (st', r))"
  shows "0 \<le> update_lag st' \<and> update_lag st' < timestep \<and> last_time st' = f32 now \<and>
         (\<forall>ft alpha. r = Some (ft, alpha) \<longrightarrow> 0 \<le> alpha \<and> alpha < 1)"
proof -
  let ?lag0 = "f32 (update_lag st + f32 (f32 now - last_time st))"
  from assms(3) obtain lag epoch g where
    c: "catch_up tick ?lag0 (epochtime st) (loop_game st) = Some (Inr (lag, epoch, g))"
    by (auto simp: loop_iteration_def Let_def split: option.splits sum.splits)
  from assms(2) have "0 \<le> f32 (f32 now - last_time st)" by (intro f32_nonneg) simp
  with assms(1) have "0 \<le> ?lag0" by (intro f32_nonneg) simp
  from catch_up_bounds [OF c this] have b: "0 \<le> lag" "lag < timestep" "f32 lag = lag"
    by simp_all
  note a = alpha_range [OF b]
  from assms(3) c b a show ?thesis
    by (auto simp: loop_iteration_def Let_def split: if_splits)
qed

lemma game_loop_bounds:
  assumes "sorted (r0 # nows)" and "last_time st = f32 r0" and "0 \<le> update_lag st"
    and "game_loop tick vsync_of refresh_rate nows st = Some (Inr (st', calls))"
  shows "0 \<le> update_lag st' \<and> (\<forall>c\<in>set calls. 0 \<le> snd c \<and> snd c < 1)"
  using assms
proof (induction nows arbitrary: st r0 calls)
  case Nil
  then show ?case by simp
next
  case (Cons now nows)
  from Cons.prems(4) obtain st1 r rs where
    it: "loop_iteration tick vsync_of refresh_rate now st = Some (Inr (st1, r))" and
    rest: "game_loop tick vsync_of refresh_rate nows st1 = Some (Inr (st', rs))" and
    calls: "calls = (case r of None \<Rightarrow> rs | Some call \<Rightarrow> call # rs)"
    by (auto split: option.splits sum.splits)
  from Cons.prems(1) have "r0 \<le> now" by simp
  then have le: "last_time st \<le> f32 now" unfolding Cons.prems(2) by (rule f32_mono)
  from loop_iteration_bounds [OF Cons.prems(3) le it]
  have b: "0 \<le> update_lag st1" "last_time st1 = f32 now"
    "\<forall>ft alpha. r = Some (ft, alpha) \<longrightarrow> 0 \<le> alpha \<and> alpha < 1"
    by simp_all
  from Cons.prems(1) have "sorted (now # nows)" by simp
  from Cons.IH [OF this b(2) b(1) rest]
  have r: "0 \<le> update_lag st'" "\<forall>c\<in>set rs. 0 \<le> snd c \<and> snd c < 1" by simp_all
  with b(3) calls show ?case by (cases r) auto
qed

lemma f32_sub_timestep_less:
  assumes "f32 lag = lag" and "timestep \<le> lag" and "lag \<le> 2 ^ 18"
  shows "f32 (lag - timestep) < lag"
proof -
  let ?z = "lag - timestep"
  have "f32 ?z \<le> f32 lag" by (intro f32_mono) (simp add: timestep_value)
  then have le: "f32 ?z \<le> lag" by (simp add: assms(1))
  have "f32 ?z \<noteq> lag"
  proof
    assume eq: "f32 ?z = lag"
    from assms(2,3) have "\<bar>?z\<bar> < 2 ^ (143 + 24) * tiny"
      by (simp add: tiny_def timestep_value)
    then have "expo ?z \<le> 143" by (simp only: expo_le_iff)
    then have "(2::real) ^ expo ?z \<le> 2 ^ 143" by (intro power_increasing) simp_all
    then have "ulp ?z \<le> 2 ^ 143 * tiny"
      unfolding ulp_def using tiny_pos by (intro mult_right_mono) simp_all
    then have "ulp ?z \<le> 1 / 64" by (simp add: tiny_def)
    with f32_error [of ?z] eq show False by (simp add: timestep_value)
  qed
  with le show ?thesis by simp
qed

lemma catch_up_returns:
  assumes tot: "\<forall>g dt t. \<exists>g'. tick g dt t = Inr g'"
  shows "f32 lag = lag \<Longrightarrow> 0 \<le> lag \<Longrightarrow> lag \<le> 2 ^ 18 \<Longrightarrow>
         \<exists>res. catch_up tick lag epoch g = Some (Inr res)"
proof (induction "nat \<lfloor>lag / tiny\<rfloor>" arbitrary: lag epoch g rule: less_induct)
  case less
  show ?case
  proof (cases "lag \<ge> timestep")
    case False
    then have "catch_up tick lag epoch g = Some (Inr (lag, epoch, g))"
      by (subst catch_up.simps) simp
    then show ?thesis ..
  next
    case True
    let ?lag1 = "f32 (lag - timestep)"
    from tot obtain g1 where t: "tick g timestep epoch = Inr g1" by blast
    have lt: "?lag1 < lag" by (rule f32_sub_timestep_less [OF less.prems(1) True less.prems(3)])
    from True have nn: "0 \<le> ?lag1" by (intro f32_nonneg) simp
    from f32_multiple [of "lag - timestep"] obtain m1 where m1: "?lag1 = of_int m1 * tiny" by blast
    from f32_multiple [of lag] less.prems(1) obtain m where m: "lag = of_int m * tiny" by metis
    from lt m1 m tiny_pos have "m1 < m" by (simp add: mult_less_cancel_right)
    moreover from nn m1 tiny_pos have "0 \<le> m1" by (simp add: zero_le_mult_iff)
    moreover have "\<lfloor>?lag1 / tiny\<rfloor> = m1"
      unfolding m1 using tiny_pos by simp
    moreover have "\<lfloor>lag / tiny\<rfloor> = m"
      by (subst m) (use tiny_pos in simp)
    ultimately have "nat \<lfloor>?lag1 / tiny\<rfloor> < nat \<lfloor>lag / tiny\<rfloor>" by simp
    from less.hyps [OF this f32_idem nn] lt less.prems(3)
    obtain res where "catch_up tick ?lag1 (f32 (epoch + timestep)) g1 = Some (Inr res)"
      by fastforce
    with True t have "catch_up tick lag epoch g = Some (Inr res)"
      by (subst catch_up.simps) simp
    then show ?thesis ..
  qed
qed


lemma loop_iteration_returns:
  assumes tot: "\<forall>g dt t. \<exists>g'. tick g dt t = Inr g'"
    and "0 \<le> update_lag st" "update_lag st \<le> 1" "0 \<le> last_time st" "last_time st \<le> f32 now"
    and "now \<le> 2 ^ 17"
  shows "\<exists>res. loop_iteration tick vsync_of refresh_rate now st = Some (Inr res)"
proof -
  let ?lt = "f32 (f32 now - last_time st)"
  let ?lag0 = "f32 (update_lag st + ?lt)"
  have p17: "f32 (2 ^ 17) = 2 ^ 17" and p18: "f32 (1 + 2 ^ 17) \<le> 2 ^ 18"
    by (simp_all add: f32_eval)
  from assms(6) have "f32 now \<le> 2 ^ 17" using f32_mono [of now "2 ^ 17"] p17 by simp
  with assms(4) have "f32 now - last_time st \<le> 2 ^ 17" by simp
  then have "?lt \<le> 2 ^ 17" using f32_mono [of "f32 now - last_time st" "2 ^ 17"] p17 by simp
  with assms(3) have "update_lag st + ?lt \<le> 1 + 2 ^ 17" by simp
  then have hi: "?lag0 \<le> 2 ^ 18" using f32_mono [of "update_lag st + ?lt" "1 + 2 ^ 17"] p18 by simp
  from assms(5) have "0 \<le> ?lt" by (intro f32_nonneg) simp
  with assms(2) have lo: "0 \<le> ?lag0" by (intro f32_nonneg) simp
  from catch_up_returns [OF tot f32_idem lo hi] obtain lag epoch g where
    "catch_up tick ?lag0 (epochtime st) (loop_game st) = Some (Inr (lag, epoch, g))"
    by (metis prod_cases3)
  then show ?thesis by (simp add: loop_iteration_def Let_def)
qed

lemma game_loop_returns:
  assumes tot: "\<forall>g dt t. \<exists>g'. tick g dt t = Inr g'"
  shows "sorted (r0 # nows) \<Longrightarrow> 0 \<le> r0 \<Longrightarrow> last_time st = f32 r0 \<Longrightarrow>
         0 \<le> update_lag st \<Longrightarrow> update_lag st \<le> 1 \<Longrightarrow> \<forall>r\<in>set nows. r \<le> 2 ^ 17 \<Longrightarrow>
         \<exists>res. game_loop tick vsync_of refresh_rate nows st = Some (Inr res)"
proof (induction nows arbitrary: st r0)
  case Nil
  then show ?case by simp
next
  case (Cons now nows)
  from Cons.prems(1) have r0: "r0 \<le> now" by simp
  then have le: "last_time st \<le> f32 now" unfolding Cons.prems(3) by (rule f32_mono)
  have nn: "0 \<le> last_time st" unfolding Cons.prems(3) by (rule f32_nonneg [OF Cons.prems(2)])
  from Cons.prems(6) have "now \<le> 2 ^ 17" by simp
  from loop_iteration_returns [OF tot Cons.prems(4,5) nn le this] obtain st1 r where
    it: "loop_iteration tick vsync_of refresh_rate now st = Some (Inr (st1, r))"
    by (metis surj_pair)
  from loop_iteration_bounds [OF Cons.prems(4) le it]
  have b: "0 \<le> update_lag st1" "update_lag st1 < timestep" "last_time st1 = f32 now" by simp_all
  from b(2) have b1: "update_lag st1 \<le> 1" by (simp add: timestep_value)
  from Cons.prems(1) have s: "sorted (now # nows)" by simp
  from r0 Cons.prems(2) have n0: "0 \<le> now" by simp
  from Cons.prems(6) have all: "\<forall>r\<in>set nows. r \<le> 2 ^ 17" by simp
  from Cons.IH [OF s n0 b(3) b(1) b1 all] obtain st2 rs where
    "game_loop tick vsync_of refresh_rate nows st1 = Some (Inr (st2, rs))"
    by (metis surj_pair)
  with it show ?case by simp
qed

text \<open>
  With a lag of \<open>2 ^ 19\<close> seconds the subtraction of the time step is absorbed by the
  rounding: the catch-up loop goes on until a tick fails.
\<close>

lemma catch_up_absorbed:
  assumes "catch_up tick lag epoch g = Some r"
  shows "lag = 2 ^ 19 \<longrightarrow> (\<exists>e. r = Inl e)"
proof (rule catch_up.raw_induct
    [where P = "\<lambda>tick lag epoch g r. lag = 2 ^ 19 \<longrightarrow> (\<exists>e. r = Inl e)", OF _ assms])
  fix catch_up' :: "('g \<Rightarrow> real \<Rightarrow> real \<Rightarrow> error + 'g) \<Rightarrow> real \<Rightarrow> real \<Rightarrow> 'g \<Rightarrow> (error + real \<times> real \<times> 'g) option"
    and tick lag epoch g r
  assume IH: "\<And>tick lag epoch g r. catch_up' tick lag epoch g = Some r \<Longrightarrow>
      lag = 2 ^ 19 \<longrightarrow> (\<exists>e. r = Inl e)"
    and body: "(if timestep \<le> lag
         then case tick g timestep epoch of Inl e \<Rightarrow> Some (Inl e)
              | Inr g' \<Rightarrow> catch_up' tick (f32 (lag - timestep)) (f32 (epoch + timestep)) g'
         else Some (Inr (lag, epoch, g))) = Some r"
  show "lag = 2 ^ 19 \<longrightarrow> (\<exists>e. r = Inl e)"
  proof
    assume lag: "lag = 2 ^ 19"
    have same: "f32 (2 ^ 19 - timestep) = 2 ^ 19" by (simp add: timestep_value f32_eval)
    show "\<exists>e. r = Inl e"
    proof (cases "tick g timestep epoch")
      case (Inl e)
      with body lag show ?thesis by (auto simp: timestep_value)
    next
      case (Inr g1)
      with body lag same have "catch_up' tick (2 ^ 19) (f32 (epoch + timestep)) g1 = Some r"
        by (simp add: timestep_value)
      from IH [OF this] show ?thesis by simp
    qed
  qed
qed

text \<open>
  C8. Run the frame loop from its initial variables on clock readings that are not
  negative and never go back (as those of \<^verbatim>\<open>glfwGetTime\<close>). Whenever the loop returns, the
  update lag it leaves is not negative, and every call of \<^verbatim>\<open>game_render\<close> has got an
  interpolation factor \<open>alpha\<close> with \<open>0 \<le> alpha < 1\<close>, all computed in single precision.
  The loop, with its inner catch-up loop, does return if no reading exceeds \<open>2 ^ 17\<close>
  seconds and no tick fails.
\<close>

theorem game_loop_alpha_range:
  assumes "sorted (0 # nows)"
  shows "(\<forall>st' calls. game_loop tick vsync_of refresh_rate nows (initial_loop g) = Some (Inr (st', calls)) \<longrightarrow>
            0 \<le> update_lag st' \<and> (\<forall>c\<in>set calls. 0 \<le> snd c \<and> snd c < 1)) \<and>
         ((\<forall>r\<in>set nows. r \<le> 2 ^ 17) \<longrightarrow> (\<forall>g dt t. \<exists>g'. tick g dt t = Inr g') \<longrightarrow>
            (\<exists>res. game_loop tick vsync_of refresh_rate nows (initial_loop g) = Some (Inr res)))"
proof (intro conjI allI impI)
  have l: "last_time (initial_loop g) = f32 0" and u: "0 \<le> update_lag (initial_loop g)"
    and u1: "update_lag (initial_loop g) \<le> 1"
    by (simp_all add: initial_loop_def)
  {
    fix st' calls
    assume "game_loop tick vsync_of refresh_rate nows (initial_loop g) = Some (Inr (st', calls))"
    from game_loop_bounds [OF assms l u this]
    show "0 \<le> update_lag st'" and "\<forall>c\<in>set calls. 0 \<le> snd c \<and> snd c < 1" by simp_all
  }
  assume "\<forall>r\<in>set nows. r \<le> 2 ^ 17" and "\<forall>g dt t. \<exists>g'. tick g dt t = Inr g'"
  from game_loop_returns [OF this(2) assms _ l u u1 this(1)]
  show "\<exists>res. game_loop tick vsync_of refresh_rate nows (initial_loop g) = Some (Inr res)" by simp
qed

text \<open>
  A quarter of a second after the start the catch-up loop runs 24 ticks, not 25, and
  leaves a lag just below the time step.
\<close>

lemma catch_up_quarter:
  "catch_up (\<lambda>g dt t. Inr (Suc g)) (1/4) 0 0 =
     Some (Inr (5368685/536870912, 8053065/33554432, 24))"
  by (simp add: catch_up.simps timestep_value f32_eval)

lemma f32_quarter: "f32 (1/4) = 1/4" "f32 (5368685/5368709) = 16777141/16777216"
  by (simp_all add: f32_eval)

theorem game_loop_alpha_range_witness:
  "game_loop (\<lambda>g dt t. Inr (Suc g)) (\<lambda>g. False) 60 [1/4] (initial_loop 0) =
     Some (Inr (\<lparr>loop_game = 24, epochtime = 8053065/33554432, last_time = 1/4,
                 update_lag = 5368685/536870912, render_lag = 0\<rparr>,
                [(1/4, 16777141/16777216)])) \<and>
   list_all (\<lambda>c. 0 \<le> snd c \<and> snd c < 1) [(1/4 :: real, 16777141/16777216 :: real)] \<and>
   (\<exists>res. game_loop (\<lambda>g dt t. Inr (Suc g)) (\<lambda>g. True) 60 [1, 2] (initial_loop 0) =
            Some (Inr res))"
proof -
  let ?tick = "\<lambda>(g::nat) (dt::real) (t::real). (Inr (Suc g) :: error + nat)"
  let ?calls = "[(1/4, 16777141/16777216)] :: (real \<times> real) list"
  have s: "sorted (0 # [1/4 :: real])" and s': "sorted (0 # [1, 2 :: real])" by simp_all
  have t: "\<forall>g dt t. \<exists>g'. ?tick g dt t = Inr g'" by simp
  have b: "\<forall>r\<in>set [1, 2 :: real]. r \<le> 2 ^ 17" by simp
  have r: "game_loop ?tick (\<lambda>g. False) 60 [1/4] (initial_loop 0) =
     Some (Inr (\<lparr>loop_game = 24, epochtime = 8053065/33554432, last_time = 1/4,
                 update_lag = 5368685/536870912, render_lag = 0\<rparr>, ?calls))"
    by (simp add: loop_iteration_def initial_loop_def Let_def catch_up_quarter timestep_value
        f32_quarter)
  with game_loop_alpha_range [OF s, of ?tick "\<lambda>g. False" 60 0]
  have "\<forall>c\<in>set ?calls. 0 \<le> snd c \<and> snd c < 1" by blast
  then have c: "list_all (\<lambda>c. 0 \<le> snd c \<and> snd c < 1) ?calls"
    unfolding list_all_iff .
  from game_loop_alpha_range [OF s', of ?tick "\<lambda>g. True" 60 0] b t
  have e: "\<exists>res. game_loop ?tick (\<lambda>g. True) 60 [1, 2] (initial_loop 0) = Some (Inr res)"
    by blast
  from r c e show ?thesis by blast
qed

subsection \<open>Order of iteration\<close>

lemma set_layer_simps [simp]:
  "objects (set_layer l objs g) l' = (if l' = l then objs else objects g l')"
  "screen_aabb (set_layer l objs g) = screen_aabb g"
  "paused (set_layer l objs g) = paused g"
  "key_states (set_layer l objs g) = key_states g"
  "key_handlers (set_layer l objs g) = key_handlers g"
  "timed_actions (set_layer l objs g) = timed_actions g"
  "textures (set_layer l objs g) = textures g"
  "audios (set_layer l objs g) = audios g"
  "playing (set_layer l objs g) = playing g"
  "next_name (set_layer l objs g) = next_name g"
  by (simp_all add: set_layer_def)

lemma update_object_log:
  assumes "update_object log_tag screen dt time obj s = Inr (obj', s')"
  shows "s' = s @ map tag (filter (\<lambda>obj. update obj \<noteq> None) [obj])"
proof -
  from assms obtain obj1 where
    1: "sprite_animation_system dt (motion_system dt (obj\<lparr>prev_transform := transform obj\<rparr>)) = Inr obj1"
    and 2: "s' = snd (custom_update_system log_tag dt time obj1 s)"
    by (auto simp: update_object_def err_bind_def split: sum.splits prod.splits)
  from 1 have "tag obj1 = tag obj \<and> update obj1 = update obj"
    by (auto simp: sprite_animation_system_def motion_system_def Let_def err_bind_def
        split: option.splits sum.splits if_splits)
  with 2 show ?thesis
    by (auto simp: custom_update_system_def log_tag_def split: option.splits)
qed

lemma update_list_log:
  "update_list log_tag screen dt time objs s = Inr (objs', s') \<Longrightarrow>
   s' = s @ map tag (filter (\<lambda>obj. update obj \<noteq> None) objs)"
proof (induction objs arbitrary: s objs' s')
  case Nil
  then show ?case by simp
next
  case (Cons obj objs)
  from Cons.prems obtain obj' s1 objs1 where
    a: "update_object log_tag screen dt time obj s = Inr (obj', s1)" and
    b: "update_list log_tag screen dt time objs s1 = Inr (objs1, s')"
    by (auto simp: err_bind_def split: sum.splits prod.splits)
  from update_object_log [OF a] Cons.IH [OF b] show ?case by simp
qed

lemma update_layers_log:
  "distinct ls \<Longrightarrow> update_layers log_tag dt time ls g s = Inr (g', s') \<Longrightarrow>
   s' = s @ map tag (filter (\<lambda>obj. update obj \<noteq> None) (concat (map (objects g) ls)))"
proof (induction ls arbitrary: g s)
  case Nil
  then show ?case by simp
next
  case (Cons l ls)
  from Cons.prems(2) obtain objs s1 where
    a: "update_list log_tag (screen_aabb g) dt time (objects g l) s = Inr (objs, s1)" and
    b: "update_layers log_tag dt time ls (set_layer l objs g) s1 = Inr (g', s')"
    by (auto simp: err_bind_def split: sum.splits prod.splits)
  from Cons.prems(1) have d: "distinct ls" and n: "l \<notin> set ls" by simp_all
  from n have same: "map (objects (set_layer l objs g)) ls = map (objects g) ls"
    by (induction ls) auto
  have "s' = s1 @ map tag (filter (\<lambda>obj. update obj \<noteq> None)
            (concat (map (objects (set_layer l objs g)) ls)))"
    by (rule Cons.IH [OF d b])
  then have "s' = s1 @ map tag (filter (\<lambda>obj. update obj \<noteq> None) (concat (map (objects g) ls)))"
    by (simp only: same)
  with update_list_log [OF a] show ?case by simp
qed

lemma render_loop_drawn:
  "render_loop objs alpha = Inr ds \<Longrightarrow> \<forall>obj\<in>set objs. glo obj \<noteq> None \<Longrightarrow>
   map drawn ds = map (\<lambda>obj. the (glo obj)) objs"
proof (induction objs arbitrary: ds)
  case Nil
  then show ?case by simp
next
  case (Cons obj objs)
  from Cons.prems(2) obtain name where name: "glo obj = Some name" by auto
  with Cons.prems(1) obtain d ds' where
    d: "draw_object obj name alpha = Inr d" and
    r: "render_loop objs alpha = Inr ds'" and ds: "ds = d # ds'"
    by (auto simp: err_bind_def split: sum.splits)
  from d have "drawn d = name"
    by (auto simp: draw_object_def split: option.splits if_splits)
  with Cons.IH [OF r] Cons.prems(2) ds name show ?case by simp
qed

lemma render_layers_drawn:
  "render_layers ls g alpha = Inr ds \<Longrightarrow> \<forall>l. \<forall>obj\<in>set (objects g l). glo obj \<noteq> None \<Longrightarrow>
   map drawn ds = map (\<lambda>obj. the (glo obj)) (concat (map (\<lambda>l. rev (objects g l)) ls))"
proof (induction ls arbitrary: ds)
  case Nil
  then show ?case by simp
next
  case (Cons l ls)
  from Cons.prems(1) obtain ds1 ds2 where
    a: "render_loop (rev (objects g l)) alpha = Inr ds1" and
    b: "render_layers ls g alpha = Inr ds2" and ds: "ds = ds1 @ ds2"
    by (auto simp: err_bind_def split: sum.splits)
  from Cons.prems(2) have "\<forall>obj\<in>set (rev (objects g l)). glo obj \<noteq> None" by simp
  from render_loop_drawn [OF a this] Cons.IH [OF b Cons.prems(2)] ds show ?case by simp
qed

lemma picking_fold:
  "fold (\<lambda>spaceship h.
           case aabb spaceship of
             None \<Rightarrow> h
           | Some bb \<Rightarrow> if collision c (world_aabb bb (transform spaceship)) then True else h)
        objs h0 \<longleftrightarrow>
   h0 \<or> (\<exists>obj\<in>set objs. case aabb obj of None \<Rightarrow> False
                                     | Some bb \<Rightarrow> collision c (world_aabb bb (transform obj)))"
  by (induction objs arbitrary: h0) (auto split: option.splits)

lemma cursor_picking_system_hover:
  "cursor_picking_system g = g\<lparr>hover := (\<exists>obj\<in>set (objects g Spaceship). under_cursor g obj)\<rparr>"
proof -
  have "cursor_picking_system g =
      g\<lparr>hover := fold (\<lambda>spaceship h.
           case aabb spaceship of
             None \<Rightarrow> h
           | Some bb \<Rightarrow> if collision (cursor_aabb g) (world_aabb bb (transform spaceship))
                        then True else h) (objects g Spaceship) False\<rparr>"
    by (simp only: cursor_picking_system_def cursor_aabb_def Let_def)
  then show ?thesis
    by (simp add: picking_fold [of "cursor_aabb g"] under_cursor_def)
qed

lemma render_aabbs_loop_eq:
  "render_aabbs_loop objs =
     map (\<lambda>obj. (the (aabb obj), transform obj)) (filter (\<lambda>obj. aabb obj \<noteq> None) objs)"
  by (induction objs) (auto split: option.splits)


lemma render_aabbs_eq:
  "render_aabbs g =
     map (\<lambda>obj. (the (aabb obj), transform obj))
       (filter (\<lambda>obj. aabb obj \<noteq> None)
          (rev (objects g Background) @ rev (objects g Spaceship) @ rev (objects g Projectile) @
           rev (objects g Explosion) @ rev (objects g Gui) @ rev (objects g Text)))"
  by (simp add: render_aabbs_def all_lists_def render_aabbs_loop_eq)




subsection \<open>Pausing\<close>

lemma run_handler_repeat:
  "run_handler h g key GLFW_REPEAT mods = handler_repeat h g key"
  by (cases h) (simp_all add: run_handler_def handler_repeat_def arrows_x_def arrows_y_def)

lemma released_simps [simp]:
  "objects (released g m ks tas) l =
     (if l = Spaceship then (hd (objects g Spaceship))\<lparr>motion := m\<rparr> # tl (objects g Spaceship)
      else objects g l)"
  "key_handlers (released g m ks tas) = key_handlers g"
  "key_states (released g m ks tas) = ks"
  "timed_actions (released g m ks tas) = tas"
  "paused (released g m ks tas) = paused g"
  "textures (released g m ks tas) = textures g"
  "audios (released g m ks tas) = audios g"
  "playing (released g m ks tas) = playing g"
  "next_name (released g m ks tas) = next_name g"
  "screen_aabb (released g m ks tas) = screen_aabb g"
  by (simp_all add: released_def)

lemma released_released [simp]:
  "released (released g m ks tas) m' ks' tas' = released g m' ks' tas'"
  by (simp add: released_def)

lemma released_self:
  "objects g Spaceship \<noteq> [] \<Longrightarrow>
   released g (motion (hd (objects g Spaceship))) (key_states g) (timed_actions g) = g"
  by (simp add: released_def)

lemma released_key_states:
  "objects g Spaceship \<noteq> [] \<Longrightarrow> 
   g\<lparr>key_states := ks\<rparr> = released g (motion (hd (objects g Spaceship))) ks (timed_actions g)"
  by (simp add: released_def)

lemma player_update_motion:
  assumes "objects g Spaceship \<noteq> []"
  shows "player_update (set_motion_x v a) g =
           Inr (released g (motion (set_motion_x v a (hd (objects g Spaceship)))) (key_states g) (timed_actions g))"
    and "player_update (set_motion_y v a) g =
           Inr (released g (motion (set_motion_y v a (hd (objects g Spaceship)))) (key_states g) (timed_actions g))"
  using assms
  by (auto simp: player_update_def released_def set_layer_def set_motion_x_def set_motion_y_def
      split: list.splits)

lemma arrows_released:
  assumes "objects g Spaceship \<noteq> []"
  shows "key = GLFW_KEY_LEFT \<or> key = GLFW_KEY_RIGHT \<Longrightarrow>
           \<exists>m. arrows_x g key = Inr (released g m (key_states g) (timed_actions g))"
    and "key = GLFW_KEY_UP \<or> key = GLFW_KEY_DOWN \<Longrightarrow>
           \<exists>m. arrows_y g key = Inr (released g m (key_states g) (timed_actions g))"
  using player_update_motion [OF assms]
  by (auto simp: arrows_x_def arrows_y_def Let_def)

lemma init_key_handlers_cases:
  assumes "init_key_handlers key = Some h"
  shows "(key = GLFW_KEY_LEFT \<or> key = GLFW_KEY_RIGHT) \<and> h = key_left_right_handler \<or>
         (key = GLFW_KEY_UP \<or> key = GLFW_KEY_DOWN) \<and> h = key_up_down_handler \<or>
         key = GLFW_KEY_SPACE \<and> h = key_space_handler \<or>
         key = GLFW_KEY_F3 \<and> h = key_f3_handler \<or>
         key = GLFW_KEY_F6 \<and> h = key_f6_handler \<or>
         key = GLFW_KEY_F7 \<and> h = key_f7_handler"
  using assms by (auto simp: init_key_handlers_def split: if_splits)

lemma init_key_handlers_consider:
  assumes "init_key_handlers key = Some h"
  obtains (lr) "key = GLFW_KEY_LEFT \<or> key = GLFW_KEY_RIGHT" "h = key_left_right_handler"
    | (ud) "key = GLFW_KEY_UP \<or> key = GLFW_KEY_DOWN" "h = key_up_down_handler"
    | (space) "key = GLFW_KEY_SPACE" "h = key_space_handler"
    | (f3) "key = GLFW_KEY_F3" "h = key_f3_handler"
    | (f6) "key = GLFW_KEY_F6" "h = key_f6_handler"
    | (f7) "key = GLFW_KEY_F7" "h = key_f7_handler"
  using init_key_handlers_cases [OF assms] by blast

lemma handler_repeat_released:
  assumes "objects g Spaceship \<noteq> []" and "init_key_handlers key = Some h"
  shows "\<exists>m. handler_repeat h g key = Inr (released g m (key_states g) (timed_actions g))"
proof -
  let ?m = "motion (hd (objects g Spaceship))"
  have idle: "g = released g ?m (key_states g) (timed_actions g)"
    using released_self [OF assms(1)] by simp
  have still: "handler_repeat h g key = Inr g \<Longrightarrow> ?thesis"
  proof -
    assume "handler_repeat h g key = Inr g"
    then have "handler_repeat h g key = Inr (released g ?m (key_states g) (timed_actions g))"
      using idle by simp
    then show ?thesis by (rule exI)
  qed
  from assms(2) show ?thesis
  proof (cases rule: init_key_handlers_consider)
    case lr
    with arrows_released(1) [OF assms(1)] show ?thesis by (simp add: handler_repeat_def)
  next
    case ud
    with arrows_released(2) [OF assms(1)] show ?thesis by (simp add: handler_repeat_def)
  next
    case space
    then show ?thesis by (intro still) (simp add: handler_repeat_def)
  next
    case f3
    then show ?thesis by (intro still) (simp add: handler_repeat_def)
  next
    case f6
    then show ?thesis by (intro still) (simp add: handler_repeat_def)
  next
    case f7
    then show ?thesis by (intro still) (simp add: handler_repeat_def)
  qed
qed

lemma player_update_stop:
  assumes "objects g Spaceship \<noteq> []"
    and "set_motion = set_motion_x \<or> set_motion = set_motion_y"
  shows "\<exists>m. player_update (set_motion 0 0) g = Inr (released g m (key_states g) (timed_actions g))"
proof -
  from assms(2) show ?thesis
  proof
    assume eq: "set_motion = set_motion_x"
    have "player_update (set_motion 0 0) g =
        Inr (released g (motion (set_motion_x 0 0 (hd (objects g Spaceship))))
          (key_states g) (timed_actions g))"
      unfolding eq by (rule player_update_motion(1) [OF assms(1)])
    then show ?thesis by (rule exI)
  next
    assume eq: "set_motion = set_motion_y"
    have "player_update (set_motion 0 0) g =
        Inr (released g (motion (set_motion_y 0 0 (hd (objects g Spaceship))))
          (key_states g) (timed_actions g))"
      unfolding eq by (rule player_update_motion(2) [OF assms(1)])
    then show ?thesis by (rule exI)
  qed
qed

lemma arrows_release_released:
  assumes "objects g Spaceship \<noteq> []" and "key_handlers g = init_key_handlers"
    and "init_key_handlers other \<noteq> None"
    and "set_motion = set_motion_x \<or> set_motion = set_motion_y"
  shows "\<exists>m ks. arrows_release set_motion g other = Inr (released g m ks (timed_actions g))"
proof (cases "map_of (key_states g) other")
  case None
  let ?g = "g\<lparr>key_states := key_states g @ [(other, False)]\<rparr>"
  have ne: "objects ?g Spaceship \<noteq> []" using assms(1) by simp
  from player_update_stop [OF ne assms(4)] obtain m where
    "player_update (set_motion 0 0) ?g = Inr (released ?g m (key_states ?g) (timed_actions ?g))"
    by blast
  moreover have "released ?g m (key_states ?g) (timed_actions ?g) =
            released g m (key_states g @ [(other, False)]) (timed_actions g)"
    by (simp add: released_def)
  ultimately have "arrows_release set_motion g other =
      Inr (released g m (key_states g @ [(other, False)]) (timed_actions g))"
    using None by (simp add: arrows_release_def)
  then show ?thesis by blast
next
  case (Some b)
  show ?thesis
  proof (cases b)
    case True
    from assms(3) obtain h where h: "init_key_handlers other = Some h" by auto
    from handler_repeat_released [OF assms(1) h] obtain m where
      "handler_repeat h g other = Inr (released g m (key_states g) (timed_actions g))" by blast
    with Some True h assms(2)
    have "arrows_release set_motion g other = Inr (released g m (key_states g) (timed_actions g))"
      by (simp add: arrows_release_def)
    then show ?thesis by blast
  next
    case False
    from player_update_stop [OF assms(1,4)] obtain m where
      "player_update (set_motion 0 0) g = Inr (released g m (key_states g) (timed_actions g))"
      by blast
    with Some False
    have "arrows_release set_motion g other = Inr (released g m (key_states g) (timed_actions g))"
      by (simp add: arrows_release_def)
    then show ?thesis by blast
  qed
qed

lemma run_handler_release_released:
  assumes "objects g Spaceship \<noteq> []" and "key_handlers g = init_key_handlers"
    and "init_key_handlers key = Some h"
  shows "\<exists>m ks tas. run_handler h g key GLFW_RELEASE mods = Inr (released g m ks tas)"
proof -
  have other: "init_key_handlers GLFW_KEY_LEFT \<noteq> None" "init_key_handlers GLFW_KEY_RIGHT \<noteq> None"
    "init_key_handlers GLFW_KEY_UP \<noteq> None" "init_key_handlers GLFW_KEY_DOWN \<noteq> None"
    by (simp_all add: init_key_handlers_def)
  let ?m = "motion (hd (objects g Spaceship))"
  have idle: "g = released g ?m (key_states g) (timed_actions g)"
    using released_self [OF assms(1)] by simp
  have still: "run_handler h g key GLFW_RELEASE mods = Inr g \<Longrightarrow> ?thesis"
  proof -
    assume "run_handler h g key GLFW_RELEASE mods = Inr g"
    then have "run_handler h g key GLFW_RELEASE mods =
        Inr (released g ?m (key_states g) (timed_actions g))"
      using idle by simp
    then show ?thesis by blast
  qed
  from assms(3) show ?thesis
  proof (cases rule: init_key_handlers_consider)
    case lr
    let ?o = "if key = GLFW_KEY_LEFT then GLFW_KEY_RIGHT else GLFW_KEY_LEFT"
    have "init_key_handlers ?o \<noteq> None" using other by simp
    from arrows_release_released [OF assms(1,2) this, of set_motion_x]
    obtain m ks where "arrows_release set_motion_x g ?o = Inr (released g m ks (timed_actions g))"
      by blast
    with lr have "run_handler h g key GLFW_RELEASE mods = Inr (released g m ks (timed_actions g))"
      by (auto simp: run_handler_def)
    then show ?thesis by blast
  next
    case ud
    let ?o = "if key = GLFW_KEY_UP then GLFW_KEY_DOWN else GLFW_KEY_UP"
    have "init_key_handlers ?o \<noteq> None" using other by simp
    from arrows_release_released [OF assms(1,2) this, of set_motion_y]
    obtain m ks where "arrows_release set_motion_y g ?o = Inr (released g m ks (timed_actions g))"
      by blast
    with ud have "run_handler h g key GLFW_RELEASE mods = Inr (released g m ks (timed_actions g))"
      by (auto simp: run_handler_def)
    then show ?thesis by blast
  next
    case space
    have "g\<lparr>timed_actions := AList.delete 0 (timed_actions g)\<rparr> =
          released g ?m (key_states g) (AList.delete 0 (timed_actions g))"
      using assms(1) by (simp add: released_def)
    with space have "run_handler h g key GLFW_RELEASE mods =
        Inr (released g ?m (key_states g) (AList.delete 0 (timed_actions g)))"
      by (simp add: run_handler_def)
    then show ?thesis by blast
  next
    case f3
    then show ?thesis by (intro still) (simp add: run_handler_def)
  next
    case f6
    then show ?thesis by (intro still) (simp add: run_handler_def)
  next
    case f7
    then show ?thesis by (intro still) (simp add: run_handler_def)
  qed
qed

lemma release_keys_released:
  assumes "objects g Spaceship \<noteq> []" and "key_handlers g = init_key_handlers"
  shows "\<exists>m ks tas. release_keys keys g = Inr (released g m ks tas)"
  using assms
proof (induction keys arbitrary: g)
  case Nil
  have "release_keys [] g =
      Inr (released g (motion (hd (objects g Spaceship))) (key_states g) (timed_actions g))"
    using released_self [OF Nil(1)] by simp
  then show ?case by blast
next
  case (Cons key keys)
  show ?case
  proof (cases "map_of (key_states g) key = Some True")
    case False
    with Cons.IH [OF Cons.prems] show ?thesis by simp
  next
    case True
    let ?g1 = "g\<lparr>key_states := AList.update key False (key_states g)\<rparr>"
    have g1: "?g1 = released g (motion (hd (objects g Spaceship)))
                 (AList.update key False (key_states g)) (timed_actions g)"
      using Cons.prems(1) by (rule released_key_states)
    have ne1: "objects ?g1 Spaceship \<noteq> []" and kh1: "key_handlers ?g1 = init_key_handlers"
      using Cons.prems by simp_all
    show ?thesis
    proof (cases "init_key_handlers key")
      case None
      from Cons.IH [OF ne1 kh1] obtain m ks tas where
        "release_keys keys ?g1 = Inr (released ?g1 m ks tas)" by blast
      moreover have "released ?g1 m ks tas = released g m ks tas"
        by (simp add: released_def)
      ultimately have "release_keys keys ?g1 = Inr (released g m ks tas)" by simp
      with True None Cons.prems(2) have "release_keys (key # keys) g = Inr (released g m ks tas)"
        by (simp add: Let_def)
      then show ?thesis by blast
    next
      case (Some h)
      from run_handler_release_released [OF ne1 kh1 Some, of 0] obtain m ks tas where
        r: "run_handler h ?g1 key GLFW_RELEASE 0 = Inr (released ?g1 m ks tas)" by blast
      let ?g2 = "released ?g1 m ks tas"
      have g2: "?g2 = released g m ks tas" by (simp add: released_def)
      have ne2: "objects ?g2 Spaceship \<noteq> []" and kh2: "key_handlers ?g2 = init_key_handlers"
        using Cons.prems by simp_all
      from Cons.IH [OF ne2 kh2] obtain m' ks' tas' where
        "release_keys keys ?g2 = Inr (released ?g2 m' ks' tas')" by blast
      moreover have "released ?g2 m' ks' tas' = released g m' ks' tas'"
        by (simp add: released_def)
      ultimately have "release_keys keys ?g2 = Inr (released g m' ks' tas')" by simp
      with True Some Cons.prems(2) r
      have "release_keys (key # keys) g = Inr (released g m' ks' tas')"
        by (simp add: Let_def)
      then show ?thesis by blast
    qed
  qed
qed

lemma game_pause_released:
  assumes "objects g Spaceship \<noteq> []" and "key_handlers g = init_key_handlers"
  shows "\<exists>m ks tas. game_pause g = Inr ((released g m ks tas)\<lparr>paused := True\<rparr>)"
proof (cases "paused g")
  case True
  have "g = (released g (motion (hd (objects g Spaceship))) (key_states g) (timed_actions g))
              \<lparr>paused := True\<rparr>"
    using released_self [OF assms(1)] True by simp
  with True have "game_pause g =
     Inr ((released g (motion (hd (objects g Spaceship))) (key_states g) (timed_actions g))
              \<lparr>paused := True\<rparr>)"
    by (simp add: game_pause_def)
  then show ?thesis by blast
next
  case False
  from release_keys_released [OF assms] obtain m ks tas where
    "release_keys (map fst (key_states g)) g = Inr (released g m ks tas)" by blast
  with False have "game_pause g = Inr ((released g m ks tas)\<lparr>paused := True\<rparr>)"
    by (simp add: game_pause_def)
  then show ?thesis by blast
qed

subsection \<open>The collision systems\<close>

lemma later_refl: "objects g Spaceship \<noteq> [] \<Longrightarrow> later g g"
  by (simp add: later_def)

lemma later_trans: "later g g' \<Longrightarrow> later g' g'' \<Longrightarrow> later g g''"
  by (auto simp: later_def)

lemma later_paused:
  "objects g Spaceship \<noteq> [] \<Longrightarrow> later g ((released g m ks tas)\<lparr>paused := True\<rparr>)"
  by (simp add: later_def)

lemma game_pause_later:
  assumes "objects g Spaceship \<noteq> []" and "key_handlers g = init_key_handlers"
  shows "\<exists>g'. game_pause g = Inr g' \<and> later g g' \<and> paused g'"
proof -
  from game_pause_released [OF assms] obtain m ks tas where
    "game_pause g = Inr ((released g m ks tas)\<lparr>paused := True\<rparr>)" by blast
  with later_paused [OF assms(1)] show ?thesis by simp
qed

lemma spawn_explosion_result:
  assumes "explosion_resources g"
  shows "\<exists>g' e. spawn_explosion pos g = Inr g' \<and>
           objects g' Explosion = objects g Explosion @ [e] \<and>
           position (transform e) = pos \<and> tag e = ''explosion'' \<and>
           (\<forall>l. l \<noteq> Explosion \<longrightarrow> objects g' l = objects g l) \<and>
           key_handlers g' = key_handlers g \<and> textures g' = textures g \<and>
           audios g' = audios g \<and> paused g' = paused g"
  using assms
  by (auto simp: explosion_resources_def spawn_explosion_def create_explosion_def Let_def
      default_object_def play_def set_layer_def)

lemma projectile_hit_miss:
  assumes "i < length (objects g Projectile)" and "j < length (objects g Spaceship)"
    and "aabb (objects g Projectile ! i) \<noteq> None" and "aabb (objects g Spaceship ! j) \<noteq> None"
    and "\<not> collision (object_box (objects g Projectile ! i)) (object_box (objects g Spaceship ! j))"
  shows "projectile_hit j i g = Inr g"
  using assms by (auto simp: projectile_hit_def object_box_def Let_def)

lemma nth_Cons_tl: "xs \<noteq> [] \<Longrightarrow> 0 < k \<Longrightarrow> (y # tl xs) ! k = xs ! k"
  by (cases xs; cases k) simp_all

lemma hd_list_update: "0 < j \<Longrightarrow> hd (list_update xs j v) = hd xs"
  by (cases xs; cases j) simp_all

lemma damage_spaceship_result:
  assumes j: "0 < j" "j < length (objects g Spaceship)"
    and kh: "key_handlers g = init_key_handlers"
    and h: "health (objects g Spaceship ! j) = Some h" "- (2 ^ 31) < h"
  shows "\<exists>g'. damage_spaceship j t g = Inr g' \<and>
           length (objects g' Spaceship) = length (objects g Spaceship) \<and>
           (\<forall>k. 0 < k \<longrightarrow> k < length (objects g Spaceship) \<longrightarrow> k \<noteq> j \<longrightarrow>
                 objects g' Spaceship ! k = objects g Spaceship ! k) \<and>
           objects g' Spaceship ! j =
             (if h - 1 \<le> 0
              then (objects g Spaceship ! j)
                     \<lparr>health := Some (h - 1), delay_erasing := Some \<lparr>de_sound = True\<rparr>,
                      transform := sentinel_transform, prev_transform := t\<rparr>
              else (objects g Spaceship ! j)\<lparr>health := Some (h - 1)\<rparr>) \<and>
           aabb (hd (objects g' Spaceship)) = aabb (hd (objects g Spaceship)) \<and>
           transform (hd (objects g' Spaceship)) = transform (hd (objects g Spaceship)) \<and>
           (\<forall>l. l \<noteq> Spaceship \<longrightarrow> objects g' l = objects g l) \<and>
           key_handlers g' = key_handlers g \<and> textures g' = textures g \<and> audios g' = audios g"
proof (cases "h - 1 \<le> 0")
  case False
  with assms show ?thesis
    by (auto simp: damage_spaceship_def Let_def hd_list_update)
next
  case True
  let ?S = "objects g Spaceship"
  let ?s = "(?S ! j)\<lparr>health := Some (h - 1), delay_erasing := Some \<lparr>de_sound = True\<rparr>,
                      transform := sentinel_transform, prev_transform := t\<rparr>"
  let ?g1 = "set_layer Spaceship (list_update ?S j ?s) g"
  have ne: "objects ?g1 Spaceship \<noteq> []" using j by auto
  have kh1: "key_handlers ?g1 = init_key_handlers" using kh by simp
  from game_pause_released [OF ne kh1] obtain m ks tas where
    p: "game_pause ?g1 = Inr ((released ?g1 m ks tas)\<lparr>paused := True\<rparr>)" by blast
  let ?g' = "(released ?g1 m ks tas)\<lparr>paused := True\<rparr>"
  have d: "damage_spaceship j t g = Inr ?g'"
    using True h p by (simp add: damage_spaceship_def Let_def)
  have S': "objects ?g' Spaceship = (hd (list_update ?S j ?s))\<lparr>motion := m\<rparr> # tl (list_update ?S j ?s)"
    by simp
  have nth: "objects ?g' Spaceship ! k = list_update ?S j ?s ! k" if "0 < k" for k
    unfolding S' using that j by (intro nth_Cons_tl) auto
  have len: "length (objects ?g' Spaceship) = length ?S"
    unfolding S' using j by simp
  have hd': "hd (objects ?g' Spaceship) = (hd ?S)\<lparr>motion := m\<rparr>"
    unfolding S' using j by (simp add: hd_list_update)
  have "length (objects ?g' Spaceship) = length (objects g Spaceship) \<and>
           (\<forall>k. 0 < k \<longrightarrow> k < length (objects g Spaceship) \<longrightarrow> k \<noteq> j \<longrightarrow>
                 objects ?g' Spaceship ! k = objects g Spaceship ! k) \<and>
           objects ?g' Spaceship ! j = ?s \<and>
           aabb (hd (objects ?g' Spaceship)) = aabb (hd (objects g Spaceship)) \<and>
           transform (hd (objects ?g' Spaceship)) = transform (hd (objects g Spaceship)) \<and>
           (\<forall>l. l \<noteq> Spaceship \<longrightarrow> objects ?g' l = objects g l) \<and>
           key_handlers ?g' = key_handlers g \<and> textures ?g' = textures g \<and> audios ?g' = audios g"
    using len nth j hd' by simp
  with d True show ?thesis by (intro exI [of _ ?g']) simp
qed

lemma projectile_hit_result:
  assumes i: "i < length (objects g Projectile)"
    and j: "0 < j" "j < length (objects g Spaceship)"
    and boxes: "aabb (objects g Projectile ! i) \<noteq> None" "aabb (objects g Spaceship ! j) \<noteq> None"
    and hit: "collision (object_box (objects g Projectile ! i)) (object_box (objects g Spaceship ! j))"
    and res: "explosion_resources g" and kh: "key_handlers g = init_key_handlers"
    and h: "health (objects g Spaceship ! j) = Some h" "- (2 ^ 31) < h"
  shows "\<exists>g' e. projectile_hit j i g = Inr g' \<and>
           objects g' Projectile =
             list_update (objects g Projectile) i (retire_projectile (objects g Projectile ! i)) \<and>
           objects g' Explosion = objects g Explosion @ [e] \<and>
           position (transform e) = position (transform (objects g Projectile ! i)) \<and>
           tag e = ''explosion'' \<and>
           length (objects g' Spaceship) = length (objects g Spaceship) \<and>
           (\<forall>k. 0 < k \<longrightarrow> k < length (objects g Spaceship) \<longrightarrow> k \<noteq> j \<longrightarrow>
                 objects g' Spaceship ! k = objects g Spaceship ! k) \<and>
           objects g' Spaceship ! j =
             (if h - 1 \<le> 0
              then (objects g Spaceship ! j)
                     \<lparr>health := Some (h - 1), delay_erasing := Some \<lparr>de_sound = True\<rparr>,
                      transform := sentinel_transform,
                      prev_transform := transform (retire_projectile (objects g Projectile ! i))\<rparr>
              else (objects g Spaceship ! j)\<lparr>health := Some (h - 1)\<rparr>) \<and>
           aabb (hd (objects g' Spaceship)) = aabb (hd (objects g Spaceship)) \<and>
           transform (hd (objects g' Spaceship)) = transform (hd (objects g Spaceship)) \<and>
           key_handlers g' = key_handlers g \<and> textures g' = textures g \<and> audios g' = audios g"
proof -
  let ?P = "objects g Projectile" and ?S = "objects g Spaceship"
  let ?p = "?P ! i"
  from spawn_explosion_result [OF res, of "position (transform ?p)"] obtain g2 e where
    sp: "spawn_explosion (position (transform ?p)) g = Inr g2" and
    ex: "objects g2 Explosion = objects g Explosion @ [e]"
        "position (transform e) = position (transform ?p)" "tag e = ''explosion''" and
    same: "\<forall>l. l \<noteq> Explosion \<longrightarrow> objects g2 l = objects g l" and
    keep: "key_handlers g2 = key_handlers g" "textures g2 = textures g" "audios g2 = audios g"
    by blast
  let ?g3 = "set_layer Projectile (list_update (objects g2 Projectile) i (retire_projectile ?p)) g2"
  have S3: "objects ?g3 Spaceship = ?S" using same by simp
  have j3: "j < length (objects ?g3 Spaceship)" and kh3: "key_handlers ?g3 = init_key_handlers"
    and h3: "health (objects ?g3 Spaceship ! j) = Some h"
    using j kh h keep S3 by simp_all
  from damage_spaceship_result [OF j(1) j3 kh3 h3 h(2), of "transform (retire_projectile ?p)"]
  obtain g' where
    d: "damage_spaceship j (transform (retire_projectile ?p)) ?g3 = Inr g'" and
    r: "length (objects g' Spaceship) = length (objects ?g3 Spaceship)"
       "\<forall>k. 0 < k \<longrightarrow> k < length (objects ?g3 Spaceship) \<longrightarrow> k \<noteq> j \<longrightarrow>
                 objects g' Spaceship ! k = objects ?g3 Spaceship ! k"
       "objects g' Spaceship ! j =
             (if h - 1 \<le> 0
              then (objects ?g3 Spaceship ! j)
                     \<lparr>health := Some (h - 1), delay_erasing := Some \<lparr>de_sound = True\<rparr>,
                      transform := sentinel_transform,
                      prev_transform := transform (retire_projectile ?p)\<rparr>
              else (objects ?g3 Spaceship ! j)\<lparr>health := Some (h - 1)\<rparr>)"
       "aabb (hd (objects g' Spaceship)) = aabb (hd (objects ?g3 Spaceship))"
       "transform (hd (objects g' Spaceship)) = transform (hd (objects ?g3 Spaceship))"
       "\<forall>l. l \<noteq> Spaceship \<longrightarrow> objects g' l = objects ?g3 l"
       "key_handlers g' = key_handlers ?g3" "textures g' = textures ?g3" "audios g' = audios ?g3"
    by blast
  obtain pb sb where bx: "aabb ?p = Some pb" "aabb (?S ! j) = Some sb" using boxes by auto
  have run: "projectile_hit j i g = Inr g'"
    using i j bx hit sp d by (simp add: projectile_hit_def Let_def object_box_def)
  have P': "objects g' Projectile = list_update ?P i (retire_projectile ?p)"
    using r(6) same by simp
  have E': "objects g' Explosion = objects g Explosion @ [e]"
    using r(6) ex(1) by simp
  from run P' E' ex(2,3) r(1-5) r(7-9) keep S3 show ?thesis
    by (intro exI [of _ g'] exI [of _ e]) (simp only: simp_thms set_layer_simps)
qed

lemma later_nth:
  assumes "later g g'" and "objects g Spaceship \<noteq> []"
  shows "length (objects g' Spaceship) = length (objects g Spaceship)"
    and "0 < k \<Longrightarrow> objects g' Spaceship ! k = objects g Spaceship ! k"
    and "aabb (objects g' Spaceship ! 0) = aabb (objects g Spaceship ! 0)"
proof -
  from assms obtain a as b bs where
    S: "objects g Spaceship = a # as" and S': "objects g' Spaceship = b # bs"
    by (auto simp: later_def neq_Nil_conv)
  with assms(1) have "bs = as" "aabb b = aabb a" by (simp_all add: later_def)
  with S S' show "length (objects g' Spaceship) = length (objects g Spaceship)"
    and "0 < k \<Longrightarrow> objects g' Spaceship ! k = objects g Spaceship ! k"
    and "aabb (objects g' Spaceship ! 0) = aabb (objects g Spaceship ! 0)"
    by (simp_all add: nth_Cons')
qed

lemma retire_projectile_aabb [simp]: "aabb (retire_projectile p) = aabb p"
  by (simp add: retire_projectile_def)

subsection \<open>What the systems before the collisions leave unchanged\<close>

lemma spawn_projectile_keeps:
  "spawn_projectile g = Inr g' \<Longrightarrow>
   textures g' = textures g \<and> audios g' = audios g \<and> key_handlers g' = key_handlers g"
  by (auto simp: spawn_projectile_def create_player_projectile_def err_bind_def Let_def
      play_def set_layer_def default_object_def split: list.splits option.splits sum.splits)

lemma update_timed_actions_keeps:
  "update_timed_actions tas g dt time = Inr (tas', g') \<Longrightarrow>
   textures g' = textures g \<and> audios g' = audios g \<and> key_handlers g' = key_handlers g"
proof (induction tas arbitrary: g tas' g')
  case Nil
  then show ?case by simp
next
  case (Cons kta tas)
  obtain k ta where kta: "kta = (k, ta)" by (cases kta)
  from Cons.prems kta obtain ta1 g1 rest where
    a: "TimedAction_update run_action ta g dt time = Inr (ta1, g1)" and
    b: "update_timed_actions tas g1 dt time = Inr (rest, g')"
    by (auto simp: err_bind_def split: sum.splits prod.splits)
  from a have "textures g1 = textures g \<and> audios g1 = audios g \<and> key_handlers g1 = key_handlers g"
    using spawn_projectile_keeps [of g g1]
    by (auto simp: TimedAction_update_def Let_def run_action_def err_bind_def
        split: if_splits sum.splits action_fn.splits)
  with Cons.IH [OF b] show ?case by simp
qed

lemma timed_action_system_keeps:
  "timed_action_system g dt time = Inr g' \<Longrightarrow>
   textures g' = textures g \<and> audios g' = audios g \<and> key_handlers g' = key_handlers g"
  using update_timed_actions_keeps [of "timed_actions g" g dt time]
  by (auto simp: timed_action_system_def err_bind_def split: sum.splits prod.splits)

lemma erasing_system_keeps:
  "textures (erasing_system g) = textures g \<and> audios (erasing_system g) = audios g \<and>
   key_handlers (erasing_system g) = key_handlers g"
  by (simp add: erasing_system_def all_lists_def)

lemma cursor_picking_system_keeps:
  "textures (cursor_picking_system g) = textures g \<and>
   audios (cursor_picking_system g) = audios g \<and>
   key_handlers (cursor_picking_system g) = key_handlers g"
  by (simp add: cursor_picking_system_def Let_def)

lemma update_layers_keeps:
  "update_layers run dt time ls g s = Inr (g', s') \<Longrightarrow>
   textures g' = textures g \<and> audios g' = audios g \<and> key_handlers g' = key_handlers g"
proof (induction ls arbitrary: g s)
  case Nil
  then show ?case by simp
next
  case (Cons l ls)
  from Cons.prems obtain objs s1 where
    "update_layers run dt time ls (set_layer l objs g) s1 = Inr (g', s')"
    by (auto simp: err_bind_def split: sum.splits prod.splits)
  from Cons.IH [OF this] show ?case by simp
qed

lemma pre_collision_keeps:
  assumes "pre_collision run g dt time s = Inr (g1, s1)"
  shows "textures g1 = textures g \<and> audios g1 = audios g \<and> key_handlers g1 = key_handlers g"
proof -
  from assms obtain g0 where
    a: "timed_action_system g dt time = Inr g0" and
    b: "update_layers run dt time all_lists (cursor_picking_system (erasing_system g0)) s = Inr (g1, s1)"
    by (auto simp: pre_collision_def update_all_objects_def err_bind_def split: sum.splits)
  from update_layers_keeps [OF b] cursor_picking_system_keeps [of "erasing_system g0"]
    erasing_system_keeps [of g0] timed_action_system_keeps [OF a]
  show ?thesis by simp
qed

subsection \<open>What a completed step of the collision systems has read and kept\<close>

lemma same_boxes_refl [simp]: "same_boxes g g"
  by (simp add: same_boxes_def)

lemma same_boxes_trans: "same_boxes g g' \<Longrightarrow> same_boxes g' g'' \<Longrightarrow> same_boxes g g''"
  by (simp add: same_boxes_def)

lemma same_boxes_nth:
  assumes "same_boxes g g'"
  shows "length (objects g' Spaceship) = length (objects g Spaceship)"
    and "length (objects g' Projectile) = length (objects g Projectile)"
    and "k < length (objects g Spaceship) \<Longrightarrow>
           aabb (objects g' Spaceship ! k) = aabb (objects g Spaceship ! k)"
    and "k < length (objects g Projectile) \<Longrightarrow>
           aabb (objects g' Projectile ! k) = aabb (objects g Projectile ! k)"
proof -
  from assms have S: "map aabb (objects g' Spaceship) = map aabb (objects g Spaceship)"
    and P: "map aabb (objects g' Projectile) = map aabb (objects g Projectile)"
    by (simp_all add: same_boxes_def)
  from S show lS: "length (objects g' Spaceship) = length (objects g Spaceship)"
    by (rule map_eq_imp_length_eq)
  from P show lP: "length (objects g' Projectile) = length (objects g Projectile)"
    by (rule map_eq_imp_length_eq)
  show "aabb (objects g' Spaceship ! k) = aabb (objects g Spaceship ! k)"
    if "k < length (objects g Spaceship)"
    using that lS S by (metis nth_map)
  show "aabb (objects g' Projectile ! k) = aabb (objects g Projectile ! k)"
    if "k < length (objects g Projectile)"
    using that lP P by (metis nth_map)
qed

lemma player_update_boxes:
  assumes "player_update f g = Inr g'" and "\<And>obj. aabb (f obj) = aabb obj"
  shows "same_boxes g g'"
  using assms
  by (auto simp: player_update_def same_boxes_def split: list.splits)

lemma set_motion_aabb [simp]:
  "aabb (set_motion_x v a obj) = aabb obj" "aabb (set_motion_y v a obj) = aabb obj"
  by (simp_all add: set_motion_x_def set_motion_y_def)

lemma handler_repeat_boxes:
  "handler_repeat h g key = Inr g' \<Longrightarrow> same_boxes g g'"
  by (cases h)
     (auto simp: handler_repeat_def arrows_x_def arrows_y_def Let_def
        split: if_splits intro: player_update_boxes)

lemma same_boxes_key_states [simp]: "same_boxes (g\<lparr>key_states := ks\<rparr>) g' = same_boxes g g'"
  "same_boxes g (g'\<lparr>key_states := ks\<rparr>) = same_boxes g g'"
  "same_boxes g (g'\<lparr>timed_actions := tas\<rparr>) = same_boxes g g'"
  "same_boxes g (g'\<lparr>paused := b\<rparr>) = same_boxes g g'"
  by (simp_all add: same_boxes_def)

lemma arrows_release_boxes:
  assumes "arrows_release set_motion g other = Inr g'"
    and "set_motion = set_motion_x \<or> set_motion = set_motion_y"
  shows "same_boxes g g'"
proof (cases "map_of (key_states g) other")
  case None
  with assms(1) have "player_update (set_motion 0 0)
      (g\<lparr>key_states := key_states g @ [(other, False)]\<rparr>) = Inr g'"
    by (simp add: arrows_release_def)
  from player_update_boxes [OF this] assms(2) show ?thesis by auto
next
  case (Some b)
  show ?thesis
  proof (cases b)
    case True
    with Some assms(1) obtain h where "handler_repeat h g other = Inr g'"
      by (auto simp: arrows_release_def split: option.splits)
    then show ?thesis by (rule handler_repeat_boxes)
  next
    case False
    with Some assms(1) have "player_update (set_motion 0 0) g = Inr g'"
      by (simp add: arrows_release_def)
    from player_update_boxes [OF this] assms(2) show ?thesis by auto
  qed
qed

lemma run_handler_release_boxes:
  assumes "run_handler h g key GLFW_RELEASE mods = Inr g'"
  shows "same_boxes g g'"
proof (cases h)
  case key_left_right_handler
  with assms obtain other where "arrows_release set_motion_x g other = Inr g'"
    by (auto simp: run_handler_def split: if_splits)
  then show ?thesis by (rule arrows_release_boxes) simp
next
  case key_up_down_handler
  with assms obtain other where "arrows_release set_motion_y g other = Inr g'"
    by (auto simp: run_handler_def split: if_splits)
  then show ?thesis by (rule arrows_release_boxes) simp
next
  case key_space_handler
  with assms show ?thesis by (auto simp: run_handler_def split: if_splits)
next
  case key_f3_handler
  with assms show ?thesis by (auto simp: run_handler_def)
next
  case key_f7_handler
  with assms show ?thesis by (auto simp: run_handler_def)
next
  case key_f6_handler
  with assms show ?thesis by (auto simp: run_handler_def)
qed

lemma release_keys_boxes:
  "release_keys keys g = Inr g' \<Longrightarrow> same_boxes g g'"
proof (induction keys arbitrary: g)
  case Nil
  then show ?case by simp
next
  case (Cons key keys)
  show ?case
  proof (cases "map_of (key_states g) key = Some True")
    case False
    with Cons show ?thesis by simp
  next
    case True
    let ?g1 = "g\<lparr>key_states := AList.update key False (key_states g)\<rparr>"
    show ?thesis
    proof (cases "key_handlers g key")
      case None
      with True Cons.prems have "release_keys keys ?g1 = Inr g'" by (simp add: Let_def)
      from Cons.IH [OF this] show ?thesis by simp
    next
      case (Some h)
      with True Cons.prems obtain g2 where
        a: "run_handler h ?g1 key GLFW_RELEASE 0 = Inr g2" and
        b: "release_keys keys g2 = Inr g'"
        by (auto simp: Let_def err_bind_def split: sum.splits)
      from run_handler_release_boxes [OF a] have "same_boxes g g2" by simp
      with Cons.IH [OF b] show ?thesis by (rule same_boxes_trans [rotated])
    qed
  qed
qed

lemma game_pause_boxes:
  "game_pause g = Inr g' \<Longrightarrow> same_boxes g g'"
  using release_keys_boxes [of "map fst (key_states g)" g]
  by (auto simp: game_pause_def err_bind_def split: if_splits sum.splits)

lemma spawn_explosion_boxes:
  "spawn_explosion pos g = Inr g' \<Longrightarrow> same_boxes g g'"
  by (auto simp: spawn_explosion_def create_explosion_def Let_def err_bind_def same_boxes_def
      play_def set_layer_def default_object_def split: option.splits sum.splits)

lemma damage_spaceship_boxes:
  assumes "damage_spaceship j t g = Inr g'" and "j < length (objects g Spaceship)"
  shows "same_boxes g g'"
proof -
  let ?S = "objects g Spaceship"
  have upd: "map aabb (list_update ?S j x) = map aabb ?S" if "aabb x = aabb (?S ! j)" for x
    using that assms(2) by (simp add: map_update list_update_same_conv)
  from assms(1) obtain h where h: "health (?S ! j) = Some h"
    by (auto simp: damage_spaceship_def Let_def split: option.splits)
  show ?thesis
  proof (cases "h - 1 \<le> 0")
    case True
    let ?g1 = "set_layer Spaceship
                 (list_update ?S j
                    ((?S ! j)\<lparr>health := Some (h - 1), delay_erasing := Some \<lparr>de_sound = True\<rparr>,
                               transform := sentinel_transform, prev_transform := t\<rparr>)) g"
    from True h assms(1) have "game_pause ?g1 = Inr g'"
      by (auto simp: damage_spaceship_def Let_def split: if_splits)
    from game_pause_boxes [OF this] have "same_boxes ?g1 g'" .
    moreover have "same_boxes g ?g1" by (simp add: same_boxes_def upd)
    ultimately show ?thesis by (rule same_boxes_trans [rotated])
  next
    case False
    with h assms(1) have "g' = set_layer Spaceship
                 (list_update ?S j ((?S ! j)\<lparr>health := Some (h - 1)\<rparr>)) g"
      by (auto simp: damage_spaceship_def Let_def split: if_splits)
    then show ?thesis by (simp add: same_boxes_def upd)
  qed
qed

lemma projectile_hit_needs:
  assumes "projectile_hit j i g = Inr g'"
  shows "i < length (objects g Projectile) \<and> j < length (objects g Spaceship) \<and>
         aabb (objects g Projectile ! i) \<noteq> None \<and> aabb (objects g Spaceship ! j) \<noteq> None \<and>
         same_boxes g g'"
proof -
  let ?P = "objects g Projectile" and ?S = "objects g Spaceship"
  from assms have i: "i < length ?P" and j: "j < length ?S"
    by (auto simp: projectile_hit_def split: if_splits)
  from assms i j obtain pb sb where bx: "aabb (?P ! i) = Some pb" "aabb (?S ! j) = Some sb"
    by (auto simp: projectile_hit_def Let_def split: option.splits)
  have "same_boxes g g'"
  proof (cases "collision (world_aabb pb (transform (?P ! i))) (world_aabb sb (transform (?S ! j)))")
    case False
    with assms i j bx show ?thesis by (simp add: projectile_hit_def Let_def)
  next
    case True
    with assms i j bx obtain g2 where
      sp: "spawn_explosion (position (transform (?P ! i))) g = Inr g2" and
      d: "damage_spaceship j (transform (retire_projectile (?P ! i)))
            (set_layer Projectile
               (list_update (objects g2 Projectile) i (retire_projectile (?P ! i))) g2) = Inr g'"
      by (auto simp: projectile_hit_def Let_def err_bind_def split: sum.splits)
    let ?g3 = "set_layer Projectile
               (list_update (objects g2 Projectile) i (retire_projectile (?P ! i))) g2"
    note b2 = spawn_explosion_boxes [OF sp]
    note n2 = same_boxes_nth [OF b2]
    have "aabb (objects g2 Projectile ! i) = aabb (?P ! i)" using n2(4) i by simp
    then have "map aabb (list_update (objects g2 Projectile) i (retire_projectile (?P ! i))) =
          map aabb (objects g2 Projectile)"
      using i n2(2) by (simp add: map_update list_update_same_conv)
    then have "same_boxes g2 ?g3" by (simp add: same_boxes_def)
    with b2 have b3: "same_boxes g ?g3" by (rule same_boxes_trans)
    have "j < length (objects ?g3 Spaceship)" using j n2(1) by simp
    from damage_spaceship_boxes [OF d this] b3 show ?thesis by (rule same_boxes_trans [rotated])
  qed
  with i j bx show ?thesis by simp
qed

lemma projectile_loop_needs:
  "for_each (projectile_hit j) is g = Inr g' \<Longrightarrow>
   same_boxes g g' \<and>
   (\<forall>i\<in>set is. i < length (objects g Projectile) \<and> aabb (objects g Projectile ! i) \<noteq> None) \<and>
   (is \<noteq> [] \<longrightarrow> j < length (objects g Spaceship) \<and> aabb (objects g Spaceship ! j) \<noteq> None)"
proof (induction "is" arbitrary: g)
  case Nil
  then show ?case by simp
next
  case (Cons i "is")
  from Cons.prems obtain g1 where
    a: "projectile_hit j i g = Inr g1" and b: "for_each (projectile_hit j) is g1 = Inr g'"
    by (auto simp: err_bind_def split: sum.splits)
  note n = projectile_hit_needs [OF a]
  then have sb: "same_boxes g g1" by simp
  note t = same_boxes_nth [OF sb]
  from Cons.IH [OF b] have sb': "same_boxes g1 g'"
    and r: "\<forall>i\<in>set is. i < length (objects g1 Projectile) \<and> aabb (objects g1 Projectile ! i) \<noteq> None"
    by simp_all
  from r t have "\<forall>i\<in>set is. i < length (objects g Projectile) \<and> aabb (objects g Projectile ! i) \<noteq> None"
    by auto
  with n sb sb' show ?case by (auto intro: same_boxes_trans)
qed

lemma spaceship_loop_needs:
  "for_each (\<lambda>j g. for_each (projectile_hit j) [0..<length (objects g Projectile)] g) js g = Inr g' \<Longrightarrow>
   same_boxes g g' \<and>
   (objects g Projectile \<noteq> [] \<longrightarrow>
      (\<forall>j\<in>set js. j < length (objects g Spaceship) \<and> aabb (objects g Spaceship ! j) \<noteq> None)) \<and>
   (js \<noteq> [] \<longrightarrow> (\<forall>i<length (objects g Projectile). aabb (objects g Projectile ! i) \<noteq> None))"
proof (induction js arbitrary: g)
  case Nil
  then show ?case by simp
next
  case (Cons j js)
  let ?inner = "\<lambda>j g. for_each (projectile_hit j) [0..<length (objects g Projectile)] g"
  from Cons.prems obtain g1 where
    a: "for_each (projectile_hit j) [0..<length (objects g Projectile)] g = Inr g1" and
    b: "for_each ?inner js g1 = Inr g'"
    by (auto simp: err_bind_def split: sum.splits)
  from projectile_loop_needs [OF a] have sb: "same_boxes g g1"
    and p: "\<forall>i<length (objects g Projectile). aabb (objects g Projectile ! i) \<noteq> None"
    and s: "objects g Projectile \<noteq> [] \<longrightarrow>
              j < length (objects g Spaceship) \<and> aabb (objects g Spaceship ! j) \<noteq> None"
    by simp_all
  note t = same_boxes_nth [OF sb]
  from Cons.IH [OF b] have sb': "same_boxes g1 g'"
    and r: "objects g1 Projectile \<noteq> [] \<longrightarrow>
      (\<forall>j\<in>set js. j < length (objects g1 Spaceship) \<and> aabb (objects g1 Spaceship ! j) \<noteq> None)"
    by simp_all
  from t(2) have ne: "objects g1 Projectile \<noteq> [] \<longleftrightarrow> objects g Projectile \<noteq> []" by auto
  from r ne t have "objects g Projectile \<noteq> [] \<longrightarrow>
      (\<forall>j\<in>set js. j < length (objects g Spaceship) \<and> aabb (objects g Spaceship ! j) \<noteq> None)"
    by auto
  with sb sb' p s show ?case by (auto intro: same_boxes_trans)
qed

lemma player_hit_needs:
  assumes "player_hit j g = Inr g'"
  shows "j < length (objects g Spaceship) \<and> aabb (objects g Spaceship ! 0) \<noteq> None \<and>
         aabb (objects g Spaceship ! j) \<noteq> None \<and> same_boxes g g'"
proof -
  let ?S = "objects g Spaceship"
  from assms have j: "j < length ?S" by (auto simp: player_hit_def split: if_splits)
  from assms j obtain pb eb where bx: "aabb (?S ! 0) = Some pb" "aabb (?S ! j) = Some eb"
    by (auto simp: player_hit_def Let_def split: option.splits)
  have "same_boxes g g'"
  proof (cases "collision (world_aabb pb (transform (?S ! 0))) (world_aabb eb (transform (?S ! j)))")
    case False
    with assms j bx show ?thesis by (simp add: player_hit_def Let_def)
  next
    case True
    with assms j bx obtain g2 where
      sp: "spawn_explosion (position (transform (?S ! 0))) g = Inr g2" and
      p: "game_pause (set_layer Spaceship
             (list_update (objects g2 Spaceship) 0 ((objects g2 Spaceship ! 0)\<lparr>glo := None\<rparr>)) g2) = Inr g'"
      by (auto simp: player_hit_def Let_def err_bind_def split: sum.splits)
    let ?g3 = "set_layer Spaceship
             (list_update (objects g2 Spaceship) 0 ((objects g2 Spaceship ! 0)\<lparr>glo := None\<rparr>)) g2"
    note b2 = spawn_explosion_boxes [OF sp]
    have "map aabb (list_update (objects g2 Spaceship) 0 ((objects g2 Spaceship ! 0)\<lparr>glo := None\<rparr>)) =
          map aabb (objects g2 Spaceship)"
      by (cases "objects g2 Spaceship") simp_all
    then have "same_boxes g2 ?g3" by (simp add: same_boxes_def)
    with b2 have "same_boxes g ?g3" by (rule same_boxes_trans)
    with game_pause_boxes [OF p] show ?thesis by (rule same_boxes_trans [rotated])
  qed
  with j bx show ?thesis by simp
qed

lemma player_loop_needs:
  "for_each player_hit js g = Inr g' \<Longrightarrow>
   same_boxes g g' \<and>
   (\<forall>j\<in>set js. j < length (objects g Spaceship) \<and> aabb (objects g Spaceship ! j) \<noteq> None) \<and>
   (js \<noteq> [] \<longrightarrow> aabb (objects g Spaceship ! 0) \<noteq> None)"
proof (induction js arbitrary: g)
  case Nil
  then show ?case by simp
next
  case (Cons j js)
  from Cons.prems obtain g1 where
    a: "player_hit j g = Inr g1" and b: "for_each player_hit js g1 = Inr g'"
    by (auto simp: err_bind_def split: sum.splits)
  note n = player_hit_needs [OF a]
  then have sb: "same_boxes g g1" by simp
  note t = same_boxes_nth [OF sb]
  from Cons.IH [OF b] have sb': "same_boxes g1 g'"
    and r: "\<forall>j\<in>set js. j < length (objects g1 Spaceship) \<and> aabb (objects g1 Spaceship ! j) \<noteq> None"
    by simp_all
  from r t have "\<forall>j\<in>set js. j < length (objects g Spaceship) \<and> aabb (objects g Spaceship ! j) \<noteq> None"
    by auto
  with n sb sb' show ?case by (auto intro: same_boxes_trans)
qed

subsection \<open>A projectile hits a spaceship\<close>

lemma spawn_explosion_resources:
  "spawn_explosion pos g = Inr g' \<Longrightarrow> explosion_resources g"
  by (auto simp: spawn_explosion_def create_explosion_def explosion_resources_def err_bind_def
      split: option.splits)

lemma damage_spaceship_health:
  "damage_spaceship j t g = Inr g' \<Longrightarrow>
   \<exists>h. health (objects g Spaceship ! j) = Some h \<and> - (2 ^ 31) < h"
  by (auto simp: damage_spaceship_def Let_def split: option.splits if_splits)

lemma retire_projectile_idem [simp]:
  "retire_projectile (retire_projectile p) = retire_projectile p"
  by (simp add: retire_projectile_def)

lemma projectile_hit_step:
  assumes run: "projectile_hit j i g = Inr g'"
    and kh: "key_handlers g = init_key_handlers" and j0: "0 < j"
  shows "key_handlers g' = init_key_handlers \<and>
         i < length (objects g Projectile) \<and> j < length (objects g Spaceship) \<and>
         length (objects g' Spaceship) = length (objects g Spaceship) \<and>
         objects g' Projectile =
           (if overlapping j i g
            then list_update (objects g Projectile) i (retire_projectile (objects g Projectile ! i))
            else objects g Projectile) \<and>
         (\<forall>k. 0 < k \<longrightarrow> k < length (objects g Spaceship) \<longrightarrow> k \<noteq> j \<longrightarrow>
               objects g' Spaceship ! k = objects g Spaceship ! k) \<and>
         health (objects g' Spaceship ! j) =
           (if overlapping j i g then map_option (\<lambda>h. h - 1) (health (objects g Spaceship ! j))
            else health (objects g Spaceship ! j)) \<and>
         (\<exists>new. objects g' Explosion = objects g Explosion @ new \<and>
            (overlapping j i g \<longrightarrow>
               (\<exists>e\<in>set new. position (transform e) = position (transform (objects g Projectile ! i)) \<and>
                            tag e = ''explosion'')))"
proof -
  let ?P = "objects g Projectile" and ?S = "objects g Spaceship"
  from projectile_hit_needs [OF run] have i: "i < length ?P" and j: "j < length ?S"
    and bx: "aabb (?P ! i) \<noteq> None" "aabb (?S ! j) \<noteq> None"
    by simp_all
  show ?thesis
  proof (cases "overlapping j i g")
    case False
    with projectile_hit_miss [OF i j bx] run have "g' = g" by (simp add: overlapping_def)
    with False kh i j show ?thesis by simp
  next
    case True
    then have hit: "collision (object_box (?P ! i)) (object_box (?S ! j))"
      by (simp add: overlapping_def)
    from bx obtain pb sb where b: "aabb (?P ! i) = Some pb" "aabb (?S ! j) = Some sb" by auto
    from run i j b hit obtain g2 where
      sp: "spawn_explosion (position (transform (?P ! i))) g = Inr g2" and
      d: "damage_spaceship j (transform (retire_projectile (?P ! i)))
            (set_layer Projectile
               (list_update (objects g2 Projectile) i (retire_projectile (?P ! i))) g2) = Inr g'"
      by (auto simp: projectile_hit_def Let_def err_bind_def object_box_def split: sum.splits)
    from spawn_explosion_resources [OF sp] have res: "explosion_resources g" .
    from spawn_explosion_result [OF res, of "position (transform (?P ! i))"] sp
    have S2: "objects g2 Spaceship = ?S" by auto
    from damage_spaceship_health [OF d] S2 obtain h where
      h: "health (?S ! j) = Some h" "- (2 ^ 31) < h"
      by auto
    from projectile_hit_result [OF i j0 j bx hit res kh h] run obtain e where
      r: "objects g' Projectile = list_update ?P i (retire_projectile (?P ! i))"
         "objects g' Explosion = objects g Explosion @ [e]"
         "position (transform e) = position (transform (?P ! i))" "tag e = ''explosion''"
         "length (objects g' Spaceship) = length ?S"
         "\<forall>k. 0 < k \<longrightarrow> k < length ?S \<longrightarrow> k \<noteq> j \<longrightarrow> objects g' Spaceship ! k = ?S ! k"
         "objects g' Spaceship ! j =
             (if h - 1 \<le> 0
              then (?S ! j)\<lparr>health := Some (h - 1), delay_erasing := Some \<lparr>de_sound = True\<rparr>,
                      transform := sentinel_transform,
                      prev_transform := transform (retire_projectile (?P ! i))\<rparr>
              else (?S ! j)\<lparr>health := Some (h - 1)\<rparr>)"
         "key_handlers g' = key_handlers g"
      by auto
    from r(7) have hj: "health (objects g' Spaceship ! j) = Some (h - 1)" by simp
    have ex: "\<exists>new. objects g' Explosion = objects g Explosion @ new \<and>
            (overlapping j i g \<longrightarrow>
               (\<exists>e\<in>set new. position (transform e) = position (transform (?P ! i)) \<and>
                            tag e = ''explosion''))"
      using r(2,3,4) by (intro exI [of _ "[e]"]) simp
    from True kh i j r(1,5,6,8) hj h(1) ex show ?thesis by simp
  qed
qed


lemma projectile_loop_found_subset:
  "set (projectile_loop_found j is g) \<subseteq> {j} \<times> set is"
  by (induction "is" arbitrary: g) (auto split: sum.splits)

lemma projectile_loop_step:
  assumes "for_each (projectile_hit j) is g = Inr g'"
    and "key_handlers g = init_key_handlers" and "0 < j" and "distinct is"
  shows "key_handlers g' = init_key_handlers \<and>
         length (objects g' Projectile) = length (objects g Projectile) \<and>
         length (objects g' Spaceship) = length (objects g Spaceship) \<and>
         (\<forall>k<length (objects g Projectile).
            objects g' Projectile ! k =
              (if k \<in> snd ` set (projectile_loop_found j is g)
               then retire_projectile (objects g Projectile ! k) else objects g Projectile ! k)) \<and>
         (\<forall>k. 0 < k \<longrightarrow> k < length (objects g Spaceship) \<longrightarrow> k \<noteq> j \<longrightarrow>
               objects g' Spaceship ! k = objects g Spaceship ! k) \<and>
         health (objects g' Spaceship ! j) =
           map_option (\<lambda>h. h - int (length (projectile_loop_found j is g)))
             (health (objects g Spaceship ! j)) \<and>
         (\<exists>new. objects g' Explosion = objects g Explosion @ new \<and>
            (\<forall>k\<in>snd ` set (projectile_loop_found j is g).
               \<exists>e\<in>set new. position (transform e) = position (transform (objects g Projectile ! k)) \<and>
                            tag e = ''explosion''))"
  using assms
proof (induction "is" arbitrary: g)
  case Nil
  then show ?case by (simp add: option.map_ident)
next
  case (Cons i "is")
  let ?P = "objects g Projectile" and ?S = "objects g Spaceship"
  from Cons.prems(1) obtain g1 where
    a: "projectile_hit j i g = Inr g1" and b: "for_each (projectile_hit j) is g1 = Inr g'"
    by (auto simp: err_bind_def split: sum.splits)
  let ?P1 = "objects g1 Projectile" and ?S1 = "objects g1 Spaceship"
  let ?F1 = "projectile_loop_found j is g1"
  let ?F = "projectile_loop_found j (i # is) g"
  from projectile_hit_step [OF a Cons.prems(2,3)] obtain new1 where
    kh1: "key_handlers g1 = init_key_handlers" and
    i: "i < length ?P" and j: "j < length ?S" and
    lS1: "length ?S1 = length ?S" and
    P1: "?P1 = (if overlapping j i g then list_update ?P i (retire_projectile (?P ! i)) else ?P)" and
    S1: "\<forall>k. 0 < k \<longrightarrow> k < length ?S \<longrightarrow> k \<noteq> j \<longrightarrow> ?S1 ! k = ?S ! k" and
    h1: "health (?S1 ! j) =
           (if overlapping j i g then map_option (\<lambda>h. h - 1) (health (?S ! j))
            else health (?S ! j))" and
    E1: "objects g1 Explosion = objects g Explosion @ new1" and
    e1: "overlapping j i g \<longrightarrow>
           (\<exists>e\<in>set new1. position (transform e) = position (transform (?P ! i)) \<and>
                          tag e = ''explosion'')"
    by blast
  from P1 have lP1: "length ?P1 = length ?P" by simp
  from Cons.prems(4) have d: "distinct is" and ni: "i \<notin> set is" by simp_all
  from Cons.IH [OF b kh1 Cons.prems(3) d] obtain new2 where
    kh': "key_handlers g' = init_key_handlers" and
    lP': "length (objects g' Projectile) = length ?P1" and
    lS': "length (objects g' Spaceship) = length ?S1" and
    P': "\<forall>k<length ?P1. objects g' Projectile ! k =
              (if k \<in> snd ` set ?F1 then retire_projectile (?P1 ! k) else ?P1 ! k)" and
    S': "\<forall>k. 0 < k \<longrightarrow> k < length ?S1 \<longrightarrow> k \<noteq> j \<longrightarrow> objects g' Spaceship ! k = ?S1 ! k" and
    h': "health (objects g' Spaceship ! j) =
           map_option (\<lambda>h. h - int (length ?F1)) (health (?S1 ! j))" and
    E': "objects g' Explosion = objects g1 Explosion @ new2" and
    e': "\<forall>k\<in>snd ` set ?F1.
           \<exists>e\<in>set new2. position (transform e) = position (transform (?P1 ! k)) \<and>
                         tag e = ''explosion''"
    by blast
  have F: "?F = (if overlapping j i g then [(j, i)] else []) @ ?F1"
    using a by simp
  have F1i: "i \<notin> snd ` set ?F1"
    using projectile_loop_found_subset [of j "is" g1] ni by auto
  have P1k: "?P1 ! k = ?P ! k" if "k \<noteq> i" for k
    using P1 that by simp
  have P1i: "?P1 ! i = (if overlapping j i g then retire_projectile (?P ! i) else ?P ! i)"
    using P1 i by simp
  have 4: "\<forall>k<length ?P. objects g' Projectile ! k =
              (if k \<in> snd ` set ?F then retire_projectile (?P ! k) else ?P ! k)"
  proof (intro allI impI)
    fix k assume k: "k < length ?P"
    show "objects g' Projectile ! k =
              (if k \<in> snd ` set ?F then retire_projectile (?P ! k) else ?P ! k)"
    proof (cases "k = i")
      case True
      with P' k lP1 F1i P1i have "objects g' Projectile ! k =
          (if overlapping j i g then retire_projectile (?P ! i) else ?P ! i)"
        by simp
      with True F F1i show ?thesis by (simp only: F) (auto simp: image_iff)
    next
      case False
      with P' k lP1 P1k have "objects g' Projectile ! k =
          (if k \<in> snd ` set ?F1 then retire_projectile (?P ! k) else ?P ! k)"
        by simp
      with False show ?thesis by (simp only: F) (auto simp: image_iff)
    qed
  qed
  have 5: "\<forall>k. 0 < k \<longrightarrow> k < length ?S \<longrightarrow> k \<noteq> j \<longrightarrow> objects g' Spaceship ! k = ?S ! k"
    using S1 S' lS1 by simp
  have 6: "health (objects g' Spaceship ! j) =
           map_option (\<lambda>h. h - int (length ?F)) (health (?S ! j))"
    using h' h1 by (simp only: F) (cases "health (?S ! j)"; simp)
  have 7: "\<forall>k\<in>snd ` set ?F.
           \<exists>e\<in>set (new1 @ new2). position (transform e) = position (transform (?P ! k)) \<and>
                         tag e = ''explosion''"
  proof
    fix k assume k: "k \<in> snd ` set ?F"
    show "\<exists>e\<in>set (new1 @ new2). position (transform e) = position (transform (?P ! k)) \<and>
                         tag e = ''explosion''"
    proof (cases "k \<in> snd ` set ?F1")
      case True
      with F1i have ki: "k \<noteq> i" by auto
      from e' True obtain e where "e \<in> set new2"
        "position (transform e) = position (transform (?P1 ! k))" "tag e = ''explosion''"
        by blast
      with P1k [OF ki] show ?thesis by auto
    next
      case False
      with k have "overlapping j i g \<and> k = i" by (simp only: F) (auto split: if_splits)
      with e1 show ?thesis by auto
    qed
  qed
  have 8: "objects g' Explosion = objects g Explosion @ (new1 @ new2)" using E' E1 by simp
  from kh' lP' lP1 lS' lS1 4 5 6 7 8 show ?case by (simp only: simp_thms) blast
qed


lemma spaceship_loop_found_subset:
  "fst ` set (spaceship_loop_found js g) \<subseteq> set js"
proof (induction js arbitrary: g)
  case Nil
  then show ?case by simp
next
  case (Cons j js)
  have "fst ` set (projectile_loop_found j [0..<length (objects g Projectile)] g) \<subseteq> {j}"
    using projectile_loop_found_subset [of j "[0..<length (objects g Projectile)]" g] by auto
  with Cons.IH show ?case by (auto split: sum.splits)
qed

lemma spaceship_loop_found_range:
  "key_handlers g = init_key_handlers \<Longrightarrow> \<forall>j\<in>set js. 0 < j \<Longrightarrow>
   snd ` set (spaceship_loop_found js g) \<subseteq> {..<length (objects g Projectile)}"
proof (induction js arbitrary: g)
  case Nil
  then show ?case by simp
next
  case (Cons j js)
  let ?is = "[0..<length (objects g Projectile)]"
  have 1: "snd ` set (projectile_loop_found j ?is g) \<subseteq> {..<length (objects g Projectile)}"
    using projectile_loop_found_subset [of j ?is g] by auto
  show ?case
  proof (cases "for_each (projectile_hit j) ?is g")
    case (Inl e)
    with 1 show ?thesis by simp
  next
    case (Inr g1)
    from Cons.prems(2) have j0: "0 < j" and js0: "\<forall>j\<in>set js. 0 < j" by simp_all
    have "distinct ?is" by simp
    from projectile_loop_step [OF Inr Cons.prems(1) j0 this]
    have kh1: "key_handlers g1 = init_key_handlers"
      and l: "length (objects g1 Projectile) = length (objects g Projectile)"
      by simp_all
    from Cons.IH [OF kh1 js0] l
    have "snd ` set (spaceship_loop_found js g1) \<subseteq> {..<length (objects g Projectile)}"
      by simp
    with 1 Inr show ?thesis by (simp add: image_Un)
  qed
qed

lemma spaceship_loop_step:
  assumes "for_each (\<lambda>j g. for_each (projectile_hit j) [0..<length (objects g Projectile)] g) js g
             = Inr g'"
    and "key_handlers g = init_key_handlers" and "\<forall>j\<in>set js. 0 < j" and "distinct js"
  shows "key_handlers g' = init_key_handlers \<and>
         length (objects g' Projectile) = length (objects g Projectile) \<and>
         length (objects g' Spaceship) = length (objects g Spaceship) \<and>
         (\<forall>k<length (objects g Projectile).
            objects g' Projectile ! k =
              (if k \<in> snd ` set (spaceship_loop_found js g)
               then retire_projectile (objects g Projectile ! k) else objects g Projectile ! k)) \<and>
         (\<forall>k. 0 < k \<longrightarrow> k < length (objects g Spaceship) \<longrightarrow>
               health (objects g' Spaceship ! k) =
                 map_option (\<lambda>h. h - int (length (filter (\<lambda>p. fst p = k) (spaceship_loop_found js g))))
                   (health (objects g Spaceship ! k))) \<and>
         (\<exists>new. objects g' Explosion = objects g Explosion @ new \<and>
            (\<forall>k\<in>snd ` set (spaceship_loop_found js g).
               \<exists>e\<in>set new. position (transform e) = position (transform (objects g Projectile ! k)) \<and>
                            tag e = ''explosion''))"
  using assms
proof (induction js arbitrary: g)
  case Nil
  then show ?case by (simp add: option.map_ident)
next
  case (Cons j js)
  let ?inner = "\<lambda>j g. for_each (projectile_hit j) [0..<length (objects g Projectile)] g"
  let ?P = "objects g Projectile" and ?S = "objects g Spaceship"
  from Cons.prems(1) obtain g1 where
    a: "for_each (projectile_hit j) [0..<length ?P] g = Inr g1" and
    b: "for_each ?inner js g1 = Inr g'"
    by (auto simp: err_bind_def split: sum.splits)
  let ?P1 = "objects g1 Projectile" and ?S1 = "objects g1 Spaceship"
  let ?F1 = "projectile_loop_found j [0..<length ?P] g"
  let ?F2 = "spaceship_loop_found js g1"
  let ?F = "spaceship_loop_found (j # js) g"
  from Cons.prems(3) have j0: "0 < j" and js0: "\<forall>j\<in>set js. 0 < j" by simp_all
  from Cons.prems(4) have d: "distinct js" and nj: "j \<notin> set js" by simp_all
  have du: "distinct [0..<length ?P]" by simp
  from projectile_loop_step [OF a Cons.prems(2) j0 du] obtain new1 where
    kh1: "key_handlers g1 = init_key_handlers" and
    lP1: "length ?P1 = length ?P" and lS1: "length ?S1 = length ?S" and
    P1: "\<forall>k<length ?P. ?P1 ! k =
              (if k \<in> snd ` set ?F1 then retire_projectile (?P ! k) else ?P ! k)" and
    S1: "\<forall>k. 0 < k \<longrightarrow> k < length ?S \<longrightarrow> k \<noteq> j \<longrightarrow> ?S1 ! k = ?S ! k" and
    h1: "health (?S1 ! j) = map_option (\<lambda>h. h - int (length ?F1)) (health (?S ! j))" and
    E1: "objects g1 Explosion = objects g Explosion @ new1" and
    e1: "\<forall>k\<in>snd ` set ?F1.
           \<exists>e\<in>set new1. position (transform e) = position (transform (?P ! k)) \<and>
                         tag e = ''explosion''"
    by blast
  from Cons.IH [OF b kh1 js0 d] obtain new2 where
    kh': "key_handlers g' = init_key_handlers" and
    lP': "length (objects g' Projectile) = length ?P1" and
    lS': "length (objects g' Spaceship) = length ?S1" and
    P': "\<forall>k<length ?P1. objects g' Projectile ! k =
              (if k \<in> snd ` set ?F2 then retire_projectile (?P1 ! k) else ?P1 ! k)" and
    h': "\<forall>k. 0 < k \<longrightarrow> k < length ?S1 \<longrightarrow>
               health (objects g' Spaceship ! k) =
                 map_option (\<lambda>h. h - int (length (filter (\<lambda>p. fst p = k) ?F2))) (health (?S1 ! k))" and
    E': "objects g' Explosion = objects g1 Explosion @ new2" and
    e': "\<forall>k\<in>snd ` set ?F2.
           \<exists>e\<in>set new2. position (transform e) = position (transform (?P1 ! k)) \<and>
                         tag e = ''explosion''"
    by blast
  have F: "?F = ?F1 @ ?F2" using a by simp
  have F1j: "\<forall>p\<in>set ?F1. fst p = j"
    using projectile_loop_found_subset [of j "[0..<length ?P]" g] by auto
  have F2j: "\<forall>p\<in>set ?F2. fst p \<noteq> j"
    using spaceship_loop_found_subset [of js g1] nj by auto
  have snd_le: "k < length ?P" if "k \<in> snd ` set ?F1" for k
    using projectile_loop_found_subset [of j "[0..<length ?P]" g] that by auto
  have 4: "\<forall>k<length ?P. objects g' Projectile ! k =
              (if k \<in> snd ` set ?F then retire_projectile (?P ! k) else ?P ! k)"
  proof (intro allI impI)
    fix k assume k: "k < length ?P"
    from P' k lP1 have "objects g' Projectile ! k =
              (if k \<in> snd ` set ?F2 then retire_projectile (?P1 ! k) else ?P1 ! k)"
      by simp
    with P1 k show "objects g' Projectile ! k =
              (if k \<in> snd ` set ?F then retire_projectile (?P ! k) else ?P ! k)"
      by (simp only: F) (auto simp: image_Un)
  qed
  have 5: "\<forall>k. 0 < k \<longrightarrow> k < length ?S \<longrightarrow>
               health (objects g' Spaceship ! k) =
                 map_option (\<lambda>h. h - int (length (filter (\<lambda>p. fst p = k) ?F))) (health (?S ! k))"
  proof (intro allI impI)
    fix k assume k: "0 < k" "k < length ?S"
    from h' k lS1 have r: "health (objects g' Spaceship ! k) =
        map_option (\<lambda>h. h - int (length (filter (\<lambda>p. fst p = k) ?F2))) (health (?S1 ! k))"
      by simp
    show "health (objects g' Spaceship ! k) =
                 map_option (\<lambda>h. h - int (length (filter (\<lambda>p. fst p = k) ?F))) (health (?S ! k))"
    proof (cases "k = j")
      case True
      from F1j have f1: "filter (\<lambda>p. fst p = j) ?F1 = ?F1" by (simp add: filter_id_conv)
      from F2j have f2: "filter (\<lambda>p. fst p = j) ?F2 = []" by (simp add: filter_empty_conv)
      from r h1 True f1 f2 show ?thesis
        by (simp only: F filter_append) (cases "health (?S ! j)"; simp)
    next
      case False
      from F1j False have f1: "filter (\<lambda>p. fst p = k) ?F1 = []"
        by (auto simp: filter_empty_conv)
      from S1 k False have "?S1 ! k = ?S ! k" by simp
      with r f1 show ?thesis by (simp only: F filter_append) simp
    qed
  qed
  have 6: "\<forall>k\<in>snd ` set ?F.
           \<exists>e\<in>set (new1 @ new2). position (transform e) = position (transform (?P ! k)) \<and>
                         tag e = ''explosion''"
  proof
    fix k assume k: "k \<in> snd ` set ?F"
    show "\<exists>e\<in>set (new1 @ new2). position (transform e) = position (transform (?P ! k)) \<and>
                         tag e = ''explosion''"
    proof (cases "k \<in> snd ` set ?F1")
      case True
      with e1 show ?thesis by auto
    next
      case False
      with k have k2: "k \<in> snd ` set ?F2" by (simp only: F) auto
      with e' obtain e where e: "e \<in> set new2"
        "position (transform e) = position (transform (?P1 ! k))" "tag e = ''explosion''"
        by blast
      from spaceship_loop_found_range [OF kh1 js0] k2 lP1 have "k < length ?P" by auto
      with P1 False have "?P1 ! k = ?P ! k" by simp
      with e show ?thesis by auto
    qed
  qed
  have 7: "objects g' Explosion = objects g Explosion @ (new1 @ new2)" using E' E1 by simp
  from kh' lP' lP1 lS' lS1 4 5 6 7 show ?case by (simp only: simp_thms) blast
qed


lemma player_hit_inv:
  assumes "player_hit j g = Inr g'" and kh: "key_handlers g = init_key_handlers"
  shows "later g g'"
proof -
  let ?S = "objects g Spaceship"
  from player_hit_needs [OF assms(1)] have j: "j < length ?S"
    and bx: "aabb (?S ! 0) \<noteq> None" "aabb (?S ! j) \<noteq> None"
    by simp_all
  from j have ne: "?S \<noteq> []" by auto
  from bx obtain pb eb where b: "aabb (?S ! 0) = Some pb" "aabb (?S ! j) = Some eb" by auto
  show ?thesis
  proof (cases "collision (world_aabb pb (transform (?S ! 0))) (world_aabb eb (transform (?S ! j)))")
    case False
    with assms(1) j b have "g' = g" by (simp add: player_hit_def Let_def)
    with later_refl [OF ne] show ?thesis by simp
  next
    case True
    with assms(1) j b obtain g2 where
      sp: "spawn_explosion (position (transform (?S ! 0))) g = Inr g2" and
      p: "game_pause (set_layer Spaceship
             (list_update (objects g2 Spaceship) 0 ((objects g2 Spaceship ! 0)\<lparr>glo := None\<rparr>)) g2) = Inr g'"
      by (auto simp: player_hit_def Let_def err_bind_def split: sum.splits)
    let ?g3 = "set_layer Spaceship
             (list_update (objects g2 Spaceship) 0 ((objects g2 Spaceship ! 0)\<lparr>glo := None\<rparr>)) g2"
    from spawn_explosion_result [OF spawn_explosion_resources [OF sp],
        of "position (transform (?S ! 0))"] sp
    obtain e where
      ex: "objects g2 Explosion = objects g Explosion @ [e]" and
      same: "\<forall>l. l \<noteq> Explosion \<longrightarrow> objects g2 l = objects g l" and
      keep: "key_handlers g2 = key_handlers g" "textures g2 = textures g" "audios g2 = audios g"
      by auto
    have S2: "objects g2 Spaceship = ?S" using same by simp
    have ne3: "objects ?g3 Spaceship \<noteq> []" using ne S2 by simp
    have kh3: "key_handlers ?g3 = init_key_handlers" using kh keep by simp
    from game_pause_later [OF ne3 kh3] p have l: "later ?g3 g'" by auto
    have "later g ?g3"
      using ne S2 ex same keep by (cases ?S) (simp_all add: later_def)
    with l show ?thesis by (rule later_trans [rotated])
  qed
qed

lemma player_loop_inv:
  "for_each player_hit js g = Inr g' \<Longrightarrow> key_handlers g = init_key_handlers \<Longrightarrow>
   objects g Spaceship \<noteq> [] \<Longrightarrow> later g g'"
proof (induction js arbitrary: g)
  case Nil
  with later_refl show ?case by simp
next
  case (Cons j js)
  from Cons.prems(1) obtain g1 where
    a: "player_hit j g = Inr g1" and b: "for_each player_hit js g1 = Inr g'"
    by (auto simp: err_bind_def split: sum.splits)
  from player_hit_inv [OF a Cons.prems(2)] have l: "later g g1" .
  then have "key_handlers g1 = init_key_handlers" "objects g1 Spaceship \<noteq> []"
    using Cons.prems(2) by (simp_all add: later_def)
  from Cons.IH [OF b this] l show ?case by (rule later_trans [rotated])
qed

lemma player_collision_system_inv:
  assumes "player_collision_system g = Inr g'" and "key_handlers g = init_key_handlers"
    and "objects g Spaceship \<noteq> []"
  shows "later g g'"
proof (cases "paused g")
  case True
  with assms(1) have "g' = g" by (simp add: player_collision_system_def)
  with later_refl [OF assms(3)] show ?thesis by simp
next
  case False
  with assms(1,3) have "for_each player_hit [1..<length (objects g Spaceship)] g = Inr g'"
    by (simp add: player_collision_system_def)
  from player_loop_inv [OF this assms(2,3)] show ?thesis .
qed


lemmas found_defs = overlaps_found_def overlapping_def



subsection \<open>A spaceship without health component\<close>

text \<open>
  C4. The scene of \<^verbatim>\<open>game_init\<close> with the health component of the enemy absent and one
  projectile on top of the enemy: the tick does not complete. The collision system reads
  the health through the empty optional.
\<close>

theorem game_update_without_health:
  "game_update run_update_fn
     (set_layer Spaceship [init_player, init_enemy\<lparr>health := None\<rparr>]
        (scenario [projectile_at (Vec2 0 (5/10))]))
     (1/100) 0 () = Inl EmptyOptional"
  by (simp add: collision_system_defs pre_collision_defs scene_defs box_defs)

subsection \<open>The collision systems read every box they come across\<close>

text \<open>
  C9 (as amended). Whenever a tick completes, let \<open>g1\<close> be the state in which it reached
  the collision systems and \<open>g2\<close> the state between the two systems. If \<open>g1\<close> has a
  spaceship besides the player and a projectile, then every projectile and every spaceship
  but the player carries a box; and if it has a spaceship besides the player and the game
  is not paused in \<open>g2\<close>, then every spaceship, the player included, carries a box. Without a
  spaceship besides the player the collision systems read no box at all.
\<close>

theorem game_update_reads_boxes:
  assumes "game_update run g dt time s = Inr (g', s')"
  shows "\<exists>g1 g2.
           pre_collision run g dt time s = Inr (g1, s') \<and>
           projectile_collision_system g1 = Inr g2 \<and>
           player_collision_system g2 = Inr g' \<and>
           (2 \<le> length (objects g1 Spaceship) \<and> objects g1 Projectile \<noteq> [] \<longrightarrow>
              (\<forall>k<length (objects g1 Projectile). aabb (objects g1 Projectile ! k) \<noteq> None) \<and>
              (\<forall>k. 0 < k \<and> k < length (objects g1 Spaceship) \<longrightarrow>
                     aabb (objects g1 Spaceship ! k) \<noteq> None)) \<and>
           (2 \<le> length (objects g1 Spaceship) \<and> \<not> paused g2 \<longrightarrow>
              (\<forall>k<length (objects g1 Spaceship). aabb (objects g1 Spaceship ! k) \<noteq> None))"
proof -
  let ?inner = "\<lambda>j g. for_each (projectile_hit j) [0..<length (objects g Projectile)] g"
  from assms obtain g1 g2 where
    pre: "pre_collision run g dt time s = Inr (g1, s')" and
    pr: "projectile_collision_system g1 = Inr g2" and
    pl: "player_collision_system g2 = Inr g'"
    by (auto simp: game_update_def err_bind_def split: sum.splits prod.splits)
  let ?S = "objects g1 Spaceship" and ?P = "objects g1 Projectile"
  from pr have ne: "?S \<noteq> []" and
    loop: "for_each ?inner [1..<length ?S] g1 = Inr g2"
    by (auto simp: projectile_collision_system_def split: if_splits)
  note n = spaceship_loop_needs [OF loop]
  then have sb: "same_boxes g1 g2" by simp
  note t = same_boxes_nth [OF sb]
  have A: "(\<forall>k<length ?P. aabb (?P ! k) \<noteq> None) \<and>
           (\<forall>k. 0 < k \<and> k < length ?S \<longrightarrow> aabb (?S ! k) \<noteq> None)"
    if "2 \<le> length ?S" "?P \<noteq> []"
  proof -
    from that(1) have "1 < length ?S" by simp
    then have "[1..<length ?S] \<noteq> []" by auto
    with n have 1: "\<forall>k<length ?P. aabb (?P ! k) \<noteq> None" by blast
    from n that(2) have "\<forall>j\<in>set [1..<length ?S]. aabb (?S ! j) \<noteq> None" by blast
    then have 2: "\<forall>k. 0 < k \<and> k < length ?S \<longrightarrow> aabb (?S ! k) \<noteq> None" by simp
    from 1 2 show ?thesis by blast
  qed
  have B: "\<forall>k<length ?S. aabb (?S ! k) \<noteq> None" if "2 \<le> length ?S" "\<not> paused g2"
  proof -
    from pl that(2) have loop2: "for_each player_hit [1..<length (objects g2 Spaceship)] g2 = Inr g'"
      by (auto simp: player_collision_system_def split: if_splits)
    note m = player_loop_needs [OF loop2]
    from that(1) t(1) have "1 < length (objects g2 Spaceship)" by simp
    then have "[1..<length (objects g2 Spaceship)] \<noteq> []" by auto
    with m have 0: "aabb (objects g2 Spaceship ! 0) \<noteq> None" by blast
    from m have "\<forall>j\<in>set [1..<length (objects g2 Spaceship)]. aabb (objects g2 Spaceship ! j) \<noteq> None"
      by blast
    then have pos: "\<forall>k. 0 < k \<and> k < length (objects g2 Spaceship) \<longrightarrow>
        aabb (objects g2 Spaceship ! k) \<noteq> None"
      by simp
    show ?thesis
    proof (intro allI impI)
      fix k assume k: "k < length ?S"
      with t(3) have "aabb (objects g2 Spaceship ! k) = aabb (?S ! k)" by simp
      moreover have "aabb (objects g2 Spaceship ! k) \<noteq> None"
        using 0 pos k t(1) by (cases "k = 0") auto
      ultimately show "aabb (?S ! k) \<noteq> None" by simp
    qed
  qed
  from pre pr pl A B show ?thesis by blast
qed

theorem game_update_reads_boxes_witness:
  "\<exists>g1 g2 g'.
     pre_collision run_update_fn (scenario [projectile_at (Vec2 0 (5/10))]) (1/100) 0 () =
       Inr (g1, ()) \<and>
     projectile_collision_system g1 = Inr g2 \<and>
     player_collision_system g2 = Inr g' \<and>
     length (objects g1 Spaceship) = 2 \<and> \<not> paused g2 \<and>
     list_all (\<lambda>obj. aabb obj \<noteq> None) (objects g1 Projectile) \<and>
     list_all (\<lambda>obj. aabb obj \<noteq> None) (objects g1 Spaceship)"
proof -
  let ?g = "scenario [projectile_at (Vec2 0 (5/10))]"
  have "\<exists>g'. game_update run_update_fn ?g (1/100) 0 () = Inr (g', ()) \<and>
          \<not> paused g'"
    by (simp add: collision_system_defs pre_collision_defs scene_defs box_defs)
  then obtain g' where run: "game_update run_update_fn ?g (1/100) 0 () = Inr (g', ())"
    and np: "\<not> paused g'"
    by blast
  from game_update_reads_boxes [OF run] obtain g1 g2 where
    pre: "pre_collision run_update_fn ?g (1/100) 0 () = Inr (g1, ())" and
    pr: "projectile_collision_system g1 = Inr g2" and
    pl: "player_collision_system g2 = Inr g'" and
    A: "2 \<le> length (objects g1 Spaceship) \<and> objects g1 Projectile \<noteq> [] \<longrightarrow>
              (\<forall>k<length (objects g1 Projectile). aabb (objects g1 Projectile ! k) \<noteq> None) \<and>
              (\<forall>k. 0 < k \<and> k < length (objects g1 Spaceship) \<longrightarrow>
                     aabb (objects g1 Spaceship ! k) \<noteq> None)" and
    B: "2 \<le> length (objects g1 Spaceship) \<and> \<not> paused g2 \<longrightarrow>
              (\<forall>k<length (objects g1 Spaceship). aabb (objects g1 Spaceship ! k) \<noteq> None)"
    by blast
  have "\<exists>g1'. pre_collision run_update_fn ?g (1/100) 0 () = Inr (g1', ()) \<and>
          length (objects g1' Spaceship) = 2 \<and> length (objects g1' Projectile) = 1"
    by (simp add: pre_collision_defs scene_defs box_defs)
  with pre have len: "length (objects g1 Spaceship) = 2" "length (objects g1 Projectile) = 1"
    by auto
  have np2: "\<not> paused g2"
  proof
    assume "paused g2"
    with pl have "g' = g2" by (simp add: player_collision_system_def)
    with np \<open>paused g2\<close> show False by simp
  qed
  from len have ne: "objects g1 Projectile \<noteq> []" by auto
  from A len ne have "\<forall>k<length (objects g1 Projectile). aabb (objects g1 Projectile ! k) \<noteq> None"
    by simp
  then have P: "list_all (\<lambda>obj. aabb obj \<noteq> None) (objects g1 Projectile)"
    by (simp add: list_all_length)
  from B len np2 have "\<forall>k<length (objects g1 Spaceship). aabb (objects g1 Spaceship ! k) \<noteq> None"
    by simp
  then have S: "list_all (\<lambda>obj. aabb obj \<noteq> None) (objects g1 Spaceship)"
    by (simp add: list_all_length)
  from pre pr pl len(1) np2 P S show ?thesis by blast
qed

text \<open>
  C9 as stated fails: in a scene with the player alone, the player and a projectile
  (without off-screen marker) both without a box, the tick completes.
\<close>

theorem game_update_without_boxes_counterexample:
  "map_sum id (\<lambda>r. (map aabb (objects (fst r) Spaceship), map aabb (objects (fst r) Projectile)))
     (game_update run_update_fn
        (set_layer Spaceship [init_player\<lparr>aabb := None\<rparr>]
           (scenario [(projectile_at (Vec2 0 (5/10)))\<lparr>aabb := None, offscreen_destroy := False\<rparr>]))
        (1/100) 0 ()) = Inr ([None], [None])"
  by (simp add: collision_system_defs pre_collision_defs scene_defs box_defs)


end
